theory Spec2Isabelle
  imports Main "HOL-Library.Char_ord" "HOL-Library.List_Lexorder" "HOL-Library.Sublist"
begin

section \<open>SVG map rendering (\<^verbatim>\<open>rpg-dm-tools/utils/svg.py\<close>)\<close>

text \<open>
  The module turns a dictionary of rooms into one SVG document. Every function of the
  module is embedded below under its own name. Python strings are \<open>string\<close>, Python
  integers are \<open>int\<close>, a dictionary is an association list in iteration order, and an
  exception is the \<open>Inl\<close> branch of a sum. The built-in \<^verbatim>\<open>str.title\<close> is a parameter.
\<close>

subsection \<open>Python values and built-ins\<close>

text \<open>
  The values a room record may hold (the records come from a JSON map file). The
  annotation \<^verbatim>\<open>Dict[str, dict]\<close> fixes that every room record is a dictionary with
  string keys; what is stored under a key is not constrained.
\<close>

datatype pyval =
    PNone
  | PBool bool
  | PInt int
  | PStr string
  | PList "pyval list"
  | PDict "(string \<times> pyval) list"

datatype error = AttributeError | TypeError | ValueError

type_synonym room_data = "(string \<times> pyval) list"
type_synonym rooms = "(string \<times> room_data) list"

text \<open>\<^verbatim>\<open>d.get(key, default)\<close> on a dictionary.\<close>

definition dict_get :: "(string \<times> pyval) list \<Rightarrow> string \<Rightarrow> pyval \<Rightarrow> pyval" where
  "dict_get d key dflt = (case map_of d key of None \<Rightarrow> dflt | Some v \<Rightarrow> v)"

text \<open>\<^verbatim>\<open>v.items()\<close>: only a dictionary has the attribute.\<close>

fun py_items :: "pyval \<Rightarrow> error + (string \<times> pyval) list" where
  "py_items (PDict kvs) = Inr kvs"
| "py_items _ = Inl AttributeError"

text \<open>
  \<^verbatim>\<open>key in v\<close> for a string \<open>key\<close>: key membership for a dictionary, element
  membership for a list, substring test for a string, \<^verbatim>\<open>TypeError\<close> for a value that is
  not a container.
\<close>

fun py_in :: "string \<Rightarrow> pyval \<Rightarrow> error + bool" where
  "py_in key (PDict kvs) = Inr (key \<in> set (map fst kvs))"
| "py_in key (PList xs) = Inr (PStr key \<in> set xs)"
| "py_in key (PStr s) = Inr (sublist key s)"
| "py_in key _ = Inl TypeError"

text \<open>\<^verbatim>\<open>max(...)\<close> of a sequence of integers; the empty sequence raises.\<close>

fun py_max :: "int list \<Rightarrow> error + int" where
  "py_max [] = Inl ValueError"
| "py_max (x # xs) = Inr (fold max xs x)"

text \<open>\<^verbatim>\<open>sep.join(parts)\<close>.\<close>

fun join :: "string \<Rightarrow> string list \<Rightarrow> string" where
  "join sep [] = []"
| "join sep [x] = x"
| "join sep (x # y # ys) = x @ sep @ join sep (y # ys)"

text \<open>Decimal rendering of an integer, as an f-string field \<^verbatim>\<open>{n}\<close> produces it.\<close>

fun show_nat :: "nat \<Rightarrow> string" where
  "show_nat n =
     (if n < 10 then [char_of (48 + n)]
      else show_nat (n div 10) @ [char_of (48 + n mod 10)])"

declare show_nat.simps [simp del]

definition show_int :: "int \<Rightarrow> string" where
  "show_int i = (if i < 0 then CHR ''-'' # show_nat (nat (- i)) else show_nat (nat i))"

text \<open>\<^verbatim>\<open>s.replace(old, new)\<close> for one-character \<open>old\<close> and \<open>new\<close>.\<close>

definition replace_char :: "char \<Rightarrow> char \<Rightarrow> string \<Rightarrow> string" where
  "replace_char old new s = map (\<lambda>c. if c = old then new else c) s"

text \<open>
  Title-casing of a string of ASCII characters: one walk over the string, which
  lower-cases a character that follows a cased character and upper-cases any other.
\<close>

definition is_upper :: "char \<Rightarrow> bool" where
  "is_upper c = (65 \<le> (of_char c :: nat) \<and> (of_char c :: nat) \<le> 90)"

definition is_lower :: "char \<Rightarrow> bool" where
  "is_lower c = (97 \<le> (of_char c :: nat) \<and> (of_char c :: nat) \<le> 122)"

definition is_cased :: "char \<Rightarrow> bool" where
  "is_cased c = (is_upper c \<or> is_lower c)"

definition to_upper :: "char \<Rightarrow> char" where
  "to_upper c = (if is_lower c then char_of ((of_char c :: nat) - 32) else c)"

definition to_lower :: "char \<Rightarrow> char" where
  "to_lower c = (if is_upper c then char_of ((of_char c :: nat) + 32) else c)"

fun title_from :: "bool \<Rightarrow> string \<Rightarrow> string" where
  "title_from previous_is_cased [] = []"
| "title_from previous_is_cased (c # cs) =
     (if previous_is_cased then to_lower c else to_upper c) # title_from (is_cased c) cs"

text \<open>
  \<^verbatim>\<open>s.title()\<close>. Python title-cases with the case mappings of the Unicode character
  database, which is not part of the repository: a letter outside ASCII has a mapping of
  its own, and may map to several characters, so that the result is longer than \<open>s\<close>.
  The built-in is therefore a parameter of the model, \<open>str_title\<close>, and every function
  that formats a name takes it as its first argument. Only for a string of ASCII
  characters is the result written out, by the walk above: there the database is the
  table of the 52 letters.
\<close>

definition is_ascii :: "char \<Rightarrow> bool" where
  "is_ascii c = ((of_char c :: nat) < 128)"

definition py_title :: "(string \<Rightarrow> string) \<Rightarrow> string \<Rightarrow> string" where
  "py_title str_title s = (if list_all is_ascii s then title_from False s else str_title s)"

text \<open>The expression \<^verbatim>\<open>s.replace("_", " ").title()\<close> of lines 80 and 253.\<close>

definition format_name :: "(string \<Rightarrow> string) \<Rightarrow> string \<Rightarrow> string" where
  "format_name str_title s = py_title str_title (replace_char CHR ''_'' CHR '' '' s)"

subsection \<open>The position table and the dimensions\<close>

definition ROOM_POSITIONS :: "(string \<times> int \<times> int \<times> int) list" where
  "ROOM_POSITIONS =
     [(''tavern'', 2, 3, 0),
      (''cellar'', 2, 3, - 1),
      (''street'', 2, 2, 0),
      (''market'', 3, 2, 0),
      (''blacksmith'', 3, 1, 0),
      (''temple'', 1, 2, 0),
      (''village_gate'', 2, 1, 0),
      (''forest_path'', 2, 0, 0)]"

definition CELL_SIZE :: int where "CELL_SIZE = 100"
definition ROOM_WIDTH :: int where "ROOM_WIDTH = 80"
definition ROOM_HEIGHT :: int where "ROOM_HEIGHT = 50"
definition PADDING :: int where "PADDING = 60"

text \<open>\<^verbatim>\<open>room_id in ROOM_POSITIONS\<close>.\<close>

definition in_positions :: "string \<Rightarrow> bool" where
  "in_positions room_id = (map_of ROOM_POSITIONS room_id \<noteq> None)"

subsection \<open>The coordinate mapper\<close>

definition get_room_center :: "string \<Rightarrow> int \<times> int" where
  "get_room_center room_id =
     (case map_of ROOM_POSITIONS room_id of
        None \<Rightarrow> (0, 0)
      | Some (grid_x, grid_y, level) \<Rightarrow>
          (let x = PADDING + grid_x * CELL_SIZE;
               y = PADDING + grid_y * CELL_SIZE
           in if level < 0 then (x + 15, y + 15) else (x, y)))"

subsection \<open>The primitive renderers\<close>

text \<open>The label of a box: the final value of \<^verbatim>\<open>display_name\<close> (lines 80 to 82).\<close>

definition display_name :: "(string \<Rightarrow> string) \<Rightarrow> string \<Rightarrow> string" where
  "display_name str_title name =
     (let formatted = format_name str_title name
      in if length formatted > 12 then take 11 formatted @ ''...'' else formatted)"

definition render_room ::
  "(string \<Rightarrow> string) \<Rightarrow> string \<Rightarrow> string \<Rightarrow> bool \<Rightarrow> int \<Rightarrow> string" where
  \<open>render_room str_title room_id name is_current level =
     (case get_room_center room_id of (x, y) \<Rightarrow>
        let fill = (if is_current then ''#4a9eff'' else ''#e8e8e8'');
            stroke = (if is_current then ''#2563eb'' else ''#666'');
            stroke_width = (if is_current then ''3'' else ''2'');
            text_color = (if is_current then ''#ffffff'' else ''#333'');
            stroke_dash = (if level < 0 then ''5,3'' else '''');
            dash_attr = (if stroke_dash \<noteq> '''' then '' stroke-dasharray="'' @ stroke_dash @ ''"'' else '''');
            rect_x = x - ROOM_WIDTH div 2;
            rect_y = y - ROOM_HEIGHT div 2
        in ''  <rect x="'' @ show_int rect_x @ ''" y="'' @ show_int rect_y
           @ ''" width="'' @ show_int ROOM_WIDTH @ ''" height="'' @ show_int ROOM_HEIGHT
           @ ''"\<newline>        rx="8" fill="'' @ fill @ ''" stroke="'' @ stroke
           @ ''" stroke-width="'' @ stroke_width @ ''"'' @ dash_attr
           @ ''/>\<newline>  <text x="'' @ show_int x @ ''" y="'' @ show_int (y + 5)
           @ ''" text-anchor="middle" font-family="Arial, sans-serif"\<newline>        font-size="11" fill="''
           @ text_color @ ''" font-weight="'' @ (if is_current then ''bold'' else ''normal'')
           @ ''">'' @ display_name str_title name @ ''</text>'')\<close>

text \<open>The endpoint adjustment of a connection (lines 108 to 130).\<close>

definition adjust_endpoints :: "string \<Rightarrow> int \<times> int \<times> int \<times> int \<Rightarrow> int \<times> int \<times> int \<times> int" where
  "adjust_endpoints direction p =
     (case p of (from_x, from_y, to_x, to_y) \<Rightarrow>
        if direction = ''north'' then
          (from_x, from_y - ROOM_HEIGHT div 2, to_x, to_y + ROOM_HEIGHT div 2)
        else if direction = ''south'' then
          (from_x, from_y + ROOM_HEIGHT div 2, to_x, to_y - ROOM_HEIGHT div 2)
        else if direction = ''east'' then
          (from_x + ROOM_WIDTH div 2, from_y, to_x - ROOM_WIDTH div 2, to_y)
        else if direction = ''west'' then
          (from_x - ROOM_WIDTH div 2, from_y, to_x + ROOM_WIDTH div 2, to_y)
        else if direction \<in> set [''up'', ''down''] then
          (if direction = ''down'' then
             (from_x + (ROOM_WIDTH div 2 - 10), from_y + ROOM_HEIGHT div 2,
              to_x + (ROOM_WIDTH div 2 - 10), to_y - ROOM_HEIGHT div 2)
           else
             (from_x + (ROOM_WIDTH div 2 - 10), from_y - ROOM_HEIGHT div 2,
              to_x + (ROOM_WIDTH div 2 - 10), to_y + ROOM_HEIGHT div 2))
        else (from_x, from_y, to_x, to_y))"

definition render_connection :: "string \<Rightarrow> string \<Rightarrow> string \<Rightarrow> string" where
  \<open>render_connection from_room to_room direction =
     (case get_room_center from_room of (from_x, from_y) \<Rightarrow>
      case get_room_center to_room of (to_x, to_y) \<Rightarrow>
      case adjust_endpoints direction (from_x, from_y, to_x, to_y) of
        (from_x, from_y, to_x, to_y) \<Rightarrow>
          let is_vertical = (direction \<in> set [''up'', ''down'']);
              dash = (if is_vertical then '' stroke-dasharray="4,2"'' else '''')
          in ''  <line x1="'' @ show_int from_x @ ''" y1="'' @ show_int from_y
             @ ''" x2="'' @ show_int to_x @ ''" y2="'' @ show_int to_y
             @ ''" stroke="#888" stroke-width="2"'' @ dash @ ''/>'')\<close>

definition render_vertical_indicator :: "string \<Rightarrow> bool \<Rightarrow> bool \<Rightarrow> string" where
  \<open>render_vertical_indicator room_id has_up has_down =
     (if \<not> has_up \<and> \<not> has_down then ''''
      else
        case get_room_center room_id of (x, y) \<Rightarrow>
          let ind_x = x + ROOM_WIDTH div 2 - 8;
              elements = [];
              elements =
                (if has_up then
                   let ind_y = y - ROOM_HEIGHT div 2 + 8
                   in elements @
                      [''  <polygon points="'' @ show_int ind_x @ '','' @ show_int ind_y
                       @ '' '' @ show_int (ind_x - 5) @ '','' @ show_int (ind_y + 8)
                       @ '' '' @ show_int (ind_x + 5) @ '','' @ show_int (ind_y + 8)
                       @ ''" '' @ ''fill="#666" stroke="none"/>'']
                 else elements);
              elements =
                (if has_down then
                   let ind_y = y + ROOM_HEIGHT div 2 - 8
                   in elements @
                      [''  <polygon points="'' @ show_int ind_x @ '','' @ show_int ind_y
                       @ '' '' @ show_int (ind_x - 5) @ '','' @ show_int (ind_y - 8)
                       @ '' '' @ show_int (ind_x + 5) @ '','' @ show_int (ind_y - 8)
                       @ ''" '' @ ''fill="#666" stroke="none"/>'']
                 else elements)
          in join ''\<newline>'' elements)\<close>

subsection \<open>The composer\<close>

text \<open>The canvas dimensions (lines 195 to 199).\<close>

definition canvas_size :: "error + (int \<times> int)" where
  "canvas_size =
     (case py_max (map (\<lambda>(room_id, grid_x, grid_y, level). grid_x) ROOM_POSITIONS) of
        Inl e \<Rightarrow> Inl e
      | Inr mx \<Rightarrow>
          (case py_max (map (\<lambda>(room_id, grid_x, grid_y, level). grid_y) ROOM_POSITIONS) of
             Inl e \<Rightarrow> Inl e
           | Inr my \<Rightarrow>
               (let max_x = mx + 1;
                    max_y = my + 1;
                    width = PADDING * 2 + max_x * CELL_SIZE;
                    height = PADDING * 2 + max_y * CELL_SIZE
                in Inr (width, height))))"

text \<open>
  The key of a connection, \<^verbatim>\<open>tuple(sorted([room_id, target_room]))\<close>: strings are
  compared code point by code point, a proper prefix being smaller.
\<close>

definition conn_key :: "string \<Rightarrow> string \<Rightarrow> string \<times> string" where
  "conn_key room_id target_room =
     (if target_room < room_id then (target_room, room_id) else (room_id, target_room))"

text \<open>
  The inner loop of lines 218 to 228 over the exits of one room. The state is the pair
  of \<^verbatim>\<open>drawn_connections\<close> and \<^verbatim>\<open>svg_parts\<close>. The membership test
  \<^verbatim>\<open>target_room not in ROOM_POSITIONS\<close> hashes the target: a list or a dictionary is
  unhashable and raises \<^verbatim>\<open>TypeError\<close>, every other value that is not a string is no
  key of the table.
\<close>

fun exits_loop ::
  "string \<Rightarrow> (string \<times> pyval) list \<Rightarrow> (string \<times> string) set \<times> string list
     \<Rightarrow> error + ((string \<times> string) set \<times> string list)" where
  "exits_loop room_id [] st = Inr st"
| "exits_loop room_id ((direction, target_room) # rest) (drawn_connections, svg_parts) =
     (case target_room of
        PStr target \<Rightarrow>
          if \<not> in_positions target then
            exits_loop room_id rest (drawn_connections, svg_parts)
          else if conn_key room_id target \<in> drawn_connections then
            exits_loop room_id rest (drawn_connections, svg_parts)
          else
            exits_loop room_id rest
              (insert (conn_key room_id target) drawn_connections,
               svg_parts @ [render_connection room_id target direction])
      | PList _ \<Rightarrow> Inl TypeError
      | PDict _ \<Rightarrow> Inl TypeError
      | _ \<Rightarrow> exits_loop room_id rest (drawn_connections, svg_parts))"

text \<open>The outer loop of lines 213 to 228.\<close>

fun connections_loop ::
  "rooms \<Rightarrow> (string \<times> string) set \<times> string list
     \<Rightarrow> error + ((string \<times> string) set \<times> string list)" where
  "connections_loop [] st = Inr st"
| "connections_loop ((room_id, room_data) # rest) st =
     (if \<not> in_positions room_id then connections_loop rest st
      else
        case py_items (dict_get room_data ''exits'' (PDict [])) of
          Inl e \<Rightarrow> Inl e
        | Inr exits \<Rightarrow>
            (case exits_loop room_id exits st of
               Inl e \<Rightarrow> Inl e
             | Inr st' \<Rightarrow> connections_loop rest st'))"

text \<open>The loop of lines 234 to 248 that draws the boxes and the vertical indicators.\<close>

fun rooms_loop ::
  "(string \<Rightarrow> string) \<Rightarrow> string \<Rightarrow> rooms \<Rightarrow> string list \<Rightarrow> error + string list" where
  "rooms_loop str_title current_room [] svg_parts = Inr svg_parts"
| "rooms_loop str_title current_room ((room_id, room_data) # rest) svg_parts =
     (case map_of ROOM_POSITIONS room_id of
        None \<Rightarrow> rooms_loop str_title current_room rest svg_parts
      | Some (grid_x, grid_y, level) \<Rightarrow>
          (let is_current = (room_id = current_room);
               svg_parts = svg_parts @ [render_room str_title room_id room_id is_current level];
               exits = dict_get room_data ''exits'' (PDict [])
           in case py_in ''up'' exits of
                Inl e \<Rightarrow> Inl e
              | Inr has_up \<Rightarrow>
                  (case py_in ''down'' exits of
                     Inl e \<Rightarrow> Inl e
                   | Inr has_down \<Rightarrow>
                       (let indicator = render_vertical_indicator room_id has_up has_down
                        in rooms_loop str_title current_room rest
                             (if indicator \<noteq> '''' then svg_parts @ [indicator] else svg_parts)))))"

text \<open>The legend line (lines 252 and 253).\<close>

definition legend :: "(string \<Rightarrow> string) \<Rightarrow> int \<Rightarrow> string \<Rightarrow> string" where
  \<open>legend str_title height current_room =
     ''  <text x="10" y="'' @ show_int (height - 10) @ ''" font-family="Arial, sans-serif" ''
     @ ''font-size="10" fill="#666">Current location: '' @ format_name str_title current_room @ ''</text>''\<close>

text \<open>
  \<^verbatim>\<open>render_map_svg\<close>, in two steps: \<open>svg_parts\<close> is the list the function has built
  when it reaches its last line, and the document is that list joined by newlines.
\<close>

definition svg_parts :: "(string \<Rightarrow> string) \<Rightarrow> rooms \<Rightarrow> string \<Rightarrow> error + string list" where
  \<open>svg_parts str_title rooms current_room =
     (case canvas_size of
        Inl e \<Rightarrow> Inl e
      | Inr (width, height) \<Rightarrow>
          (let parts =
                 [''<svg viewBox="0 0 '' @ show_int width @ '' '' @ show_int height
                    @ ''" xmlns="http://www.w3.org/2000/svg">'',
                  ''  <!-- Background -->'',
                  ''  <rect width="'' @ show_int width @ ''" height="'' @ show_int height
                    @ ''" fill="#f5f5f5"/>'',
                  '''',
                  ''  <!-- Connections -->'']
           in case connections_loop rooms ({}, parts) of
                Inl e \<Rightarrow> Inl e
              | Inr (drawn_connections, parts) \<Rightarrow>
                  (let parts = parts @ ['''', ''  <!-- Rooms -->'']
                   in case rooms_loop str_title current_room rooms parts of
                        Inl e \<Rightarrow> Inl e
                      | Inr parts \<Rightarrow>
                          Inr (parts @ ['''', ''  <!-- Legend -->'',
                                        legend str_title height current_room, ''</svg>'']))))\<close>

definition render_map_svg :: "(string \<Rightarrow> string) \<Rightarrow> rooms \<Rightarrow> string \<Rightarrow> error + string" where
  "render_map_svg str_title rooms current_room =
     (case svg_parts str_title rooms current_room of
        Inl e \<Rightarrow> Inl e
      | Inr parts \<Rightarrow> Inr (join ''\<newline>'' parts))"

subsection \<open>Vocabulary for the properties\<close>

text \<open>
  The fragments of \<open>svg_parts\<close> are told apart by how they begin: a connection is the
  only fragment that opens a \<^verbatim>\<open>line\<close> element, a room box the only one that opens a
  \<^verbatim>\<open>rect\<close> element with an \<^verbatim>\<open>x\<close> attribute (the background rectangle starts with its
  \<^verbatim>\<open>width\<close>). A box is styled as current when it carries the highlight fill colour.
\<close>

definition is_line_fragment :: "string \<Rightarrow> bool" where
  "is_line_fragment s = prefix ''  <line '' s"

definition is_box_fragment :: "string \<Rightarrow> bool" where
  "is_box_fragment s = prefix ''  <rect x='' s"

definition is_current_box :: "string \<Rightarrow> bool" where
  \<open>is_current_box s = (is_box_fragment s \<and> sublist ''fill="#4a9eff"'' s)\<close>

text \<open>The number of positions of a document at which a pattern occurs.\<close>

fun count_occurrences :: "string \<Rightarrow> string \<Rightarrow> nat" where
  "count_occurrences pat [] = (if pat = [] then 1 else 0)"
| "count_occurrences pat (c # cs) =
     (if prefix pat (c # cs) then 1 else 0) + count_occurrences pat cs"

text \<open>
  A call of \<open>render_connection\<close> is recorded as the triple of its arguments; its key is
  the key the composer stores in \<^verbatim>\<open>drawn_connections\<close>.
\<close>

definition call_key :: "string \<times> string \<times> string \<Rightarrow> string \<times> string" where
  "call_key c = (case c of (from_room, to_room, direction) \<Rightarrow> conn_key from_room to_room)"

definition render_call :: "string \<times> string \<times> string \<Rightarrow> string" where
  "render_call c =
     (case c of (from_room, to_room, direction) \<Rightarrow> render_connection from_room to_room direction)"

text \<open>The first five fragments of every document, for the canvas of 520 by 520.\<close>

definition svg_header :: "string list" where
  \<open>svg_header =
     [''<svg viewBox="0 0 520 520" xmlns="http://www.w3.org/2000/svg">'',
      ''  <!-- Background -->'',
      ''  <rect width="520" height="520" fill="#f5f5f5"/>'',
      '''',
      ''  <!-- Connections -->'']\<close>

text \<open>The value both loops read from a room record.\<close>

definition exits_of :: "room_data \<Rightarrow> pyval" where
  "exits_of room_data = dict_get room_data ''exits'' (PDict [])"

text \<open>
  \<open>exit_call rooms c\<close>: the triple \<open>c\<close> is an exit of a supplied room, with both ends in
  the position table.
\<close>

definition exit_call :: "rooms \<Rightarrow> string \<times> string \<times> string \<Rightarrow> bool" where
  "exit_call rooms c \<longleftrightarrow>
     (\<exists>a b d kvs room_data. c = (a, b, d) \<and> in_positions a \<and> in_positions b
        \<and> (a, room_data) \<in> set rooms \<and> exits_of room_data = PDict kvs \<and> (d, PStr b) \<in> set kvs)"

text \<open>
  \<open>is_room_fragment str_title rooms current_room s\<close>: the fragment \<open>s\<close> is the box of a supplied
  room of the position table, or a non-empty vertical indicator.
\<close>

definition is_room_fragment :: "(string \<Rightarrow> string) \<Rightarrow> rooms \<Rightarrow> string \<Rightarrow> string \<Rightarrow> bool" where
  "is_room_fragment str_title rooms current_room s \<longleftrightarrow>
     (\<exists>room_id grid_x grid_y level.
        room_id \<in> fst ` set rooms \<and>
        map_of ROOM_POSITIONS room_id = Some (grid_x, grid_y, level) \<and>
        s = render_room str_title room_id room_id (room_id = current_room) level)
     \<or> (s \<noteq> [] \<and> (\<exists>room_id has_up has_down. s = render_vertical_indicator room_id has_up has_down))"

text \<open>
  A value is hashable unless it is a list or a dictionary. A room record has well-formed
  exits when it has no \<^verbatim>\<open>exits\<close> entry, or the entry is a dictionary all of whose targets
  are hashable.
\<close>

fun hashable :: "pyval \<Rightarrow> bool" where
  "hashable (PList xs) = False"
| "hashable (PDict kvs) = False"
| "hashable v = True"

definition exits_wf :: "room_data \<Rightarrow> bool" where
  "exits_wf room_data =
     (case map_of room_data ''exits'' of
        None \<Rightarrow> True
      | Some (PDict kvs) \<Rightarrow> list_all (\<lambda>(direction, target_room). hashable target_room) kvs
      | Some v \<Rightarrow> False)"

text \<open>
  The mapping of the end-to-end example, with the fragments it is rendered to when the
  current room is the tavern.
\<close>

definition example_rooms :: rooms where
  "example_rooms =
     [(''tavern'', [(''exits'', PDict [])]),
      (''street'', [(''exits'', PDict [(''north'', PStr ''village_gate'')])])]"

definition example_parts :: "(string \<Rightarrow> string) \<Rightarrow> string list" where
  "example_parts str_title =
     svg_header @
       [render_connection ''street'' ''village_gate'' ''north'',
        '''',
        ''  <!-- Rooms -->'',
        render_room str_title ''tavern'' ''tavern'' True 0,
        render_room str_title ''street'' ''street'' False 0,
        '''',
        ''  <!-- Legend -->'',
        legend str_title 520 ''tavern'',
        ''</svg>'']"

text \<open>
  An instance of the parameter \<open>str_title\<close> for the closed examples. It holds the results
  of \<^verbatim>\<open>str.title\<close> on the two strings outside ASCII that the examples format: the string
  of sharp s (code point 223) followed by \<^verbatim>\<open>illage gate\<close> is title-cased to
  \<^verbatim>\<open>Ssillage Gate\<close>, one character longer, and the string of e acute (code point 233)
  followed by \<^verbatim>\<open>cole\<close> to capital e acute (code point 201) followed by \<^verbatim>\<open>cole\<close>. It is
  a table of these two results and no model of the built-in: every other string is
  returned as it is, and no example consults it there.
\<close>

definition sample_title :: "string \<Rightarrow> string" where
  "sample_title s =
     (if s = CHR 0xDF # ''illage gate'' then ''Ssillage Gate''
      else if s = CHR 0xE9 # ''cole'' then CHR 0xC9 # ''cole''
      else s)"

section \<open>Properties\<close>

subsection \<open>Fragments\<close>

lemma in_positions_iff: "in_positions room_id \<longleftrightarrow> room_id \<in> fst ` set ROOM_POSITIONS"
  unfolding in_positions_def by (simp add: map_of_eq_None_iff)

lemma conn_key_commute: "conn_key a b = conn_key b a"
  unfolding conn_key_def by auto

lemma conn_key_eq_iff: "conn_key a b = conn_key c d \<longleftrightarrow> {a, b} = {c, d}"
  unfolding conn_key_def by (auto simp: doubleton_eq_iff)

lemma canvas_size_value: "canvas_size = Inr (520, 520)"
  by (simp add: canvas_size_def ROOM_POSITIONS_def PADDING_def CELL_SIZE_def)

lemma show_520: "show_int 520 = ''520''" and show_510: "show_int 510 = ''510''"
  by code_simp+

lemma line_render_connection [simp]: "is_line_fragment (render_connection a b d)"
  unfolding is_line_fragment_def render_connection_def Let_def
  by (simp split: prod.splits)

lemma box_render_connection [simp]: "\<not> is_box_fragment (render_connection a b d)"
  unfolding is_box_fragment_def render_connection_def Let_def
  by (simp split: prod.splits)

lemma box_render_room [simp]: "is_box_fragment (render_room str_title r n c l)"
  unfolding is_box_fragment_def render_room_def Let_def
  by (simp split: prod.splits)

lemma line_render_room [simp]: "\<not> is_line_fragment (render_room str_title r n c l)"
  unfolding is_line_fragment_def render_room_def Let_def
  by (simp split: prod.splits)

lemma indicator_prefix:
  "render_vertical_indicator r u d \<noteq> [] \<Longrightarrow> prefix ''  <polygon'' (render_vertical_indicator r u d)"
  unfolding render_vertical_indicator_def Let_def
  by (cases u; cases d) (simp_all split: prod.splits)

lemma line_indicator [simp]:
  "render_vertical_indicator r u d \<noteq> [] \<Longrightarrow> \<not> is_line_fragment (render_vertical_indicator r u d)"
  using indicator_prefix [of r u d] unfolding is_line_fragment_def prefix_def by auto

lemma box_indicator [simp]:
  "render_vertical_indicator r u d \<noteq> [] \<Longrightarrow> \<not> is_box_fragment (render_vertical_indicator r u d)"
  using indicator_prefix [of r u d] unfolding is_box_fragment_def prefix_def by auto

lemma legend_not_line [simp]: "\<not> is_line_fragment (legend str_title h c)"
  unfolding is_line_fragment_def legend_def by simp

lemma legend_not_box [simp]: "\<not> is_box_fragment (legend str_title h c)"
  unfolding is_box_fragment_def legend_def by simp

lemma header_not_line: "s \<in> set svg_header \<Longrightarrow> \<not> is_line_fragment s"
  unfolding svg_header_def is_line_fragment_def by auto

lemma header_not_box: "s \<in> set svg_header \<Longrightarrow> \<not> is_box_fragment s"
  unfolding svg_header_def is_box_fragment_def by auto

lemma render_call_line: "is_line_fragment (render_call c)"
  unfolding render_call_def by (cases c) simp

lemma render_call_not_box: "\<not> is_box_fragment (render_call c)"
  unfolding render_call_def by (cases c) simp

lemma no_indicator [simp]: "render_vertical_indicator room_id False False = []"
  by (simp add: render_vertical_indicator_def)

lemma join_first: "parts \<noteq> [] \<Longrightarrow> prefix (hd parts) (join sep parts)"
  by (induction sep parts rule: join.induct) simp_all

lemma join_last: "parts \<noteq> [] \<Longrightarrow> suffix (last parts) (join sep parts)"
proof (induction sep parts rule: join.induct)
  case (3 sep x y ys)
  then have "suffix (last (y # ys)) (join sep (y # ys))" by simp
  then have "suffix (last (y # ys)) (x @ sep @ join sep (y # ys))"
    by (simp add: suffix_append)
  then show ?case by simp
qed simp_all

subsection \<open>What the loops append\<close>

lemma exit_call_mono: "exit_call rooms c \<Longrightarrow> exit_call (r # rooms) c"
  unfolding exit_call_def by (metis list.set_intros(2))

lemma exits_loop_trace:
  "exits_loop room_id exits (drawn, parts) = Inr (drawn', parts') \<Longrightarrow>
   \<exists>calls. parts' = parts @ map render_call calls
     \<and> drawn' = drawn \<union> call_key ` set calls
     \<and> distinct (map call_key calls)
     \<and> call_key ` set calls \<inter> drawn = {}
     \<and> (\<forall>c \<in> set calls. \<exists>b d. c = (room_id, b, d) \<and> in_positions b \<and> (d, PStr b) \<in> set exits)"
proof (induction exits arbitrary: drawn parts)
  case Nil
  then show ?case by (intro exI [of _ "[]"]) simp
next
  case (Cons e exits)
  obtain direction target_room where e: "e = (direction, target_room)" by (cases e)
  show ?case
  proof (cases "\<exists>t. target_room = PStr t \<and> in_positions t \<and> conn_key room_id t \<notin> drawn")
    case True
    then obtain t where t: "target_room = PStr t" "in_positions t" "conn_key room_id t \<notin> drawn"
      by blast
    with Cons.prems e have
      "exits_loop room_id exits (insert (conn_key room_id t) drawn,
         parts @ [render_connection room_id t direction]) = Inr (drawn', parts')"
      by simp
    from Cons.IH [OF this] obtain calls where calls:
      "parts' = (parts @ [render_connection room_id t direction]) @ map render_call calls"
      "drawn' = insert (conn_key room_id t) drawn \<union> call_key ` set calls"
      "distinct (map call_key calls)"
      "call_key ` set calls \<inter> insert (conn_key room_id t) drawn = {}"
      "\<forall>c \<in> set calls. \<exists>b d. c = (room_id, b, d) \<and> in_positions b \<and> (d, PStr b) \<in> set exits"
      by blast
    let ?calls = "(room_id, t, direction) # calls"
    have k: "call_key (room_id, t, direction) = conn_key room_id t"
      by (simp add: call_key_def)
    have "parts' = parts @ map render_call ?calls"
      using calls(1) by (simp add: render_call_def)
    moreover have "drawn' = drawn \<union> call_key ` set ?calls"
      using calls(2) k by simp
    moreover have "distinct (map call_key ?calls)"
      using calls(3,4) k by auto
    moreover have "call_key ` set ?calls \<inter> drawn = {}"
      using calls(4) t(3) k by auto
    moreover have "\<forall>c \<in> set ?calls. \<exists>b d. c = (room_id, b, d) \<and> in_positions b
        \<and> (d, PStr b) \<in> set (e # exits)"
    proof
      fix c assume "c \<in> set ?calls"
      then consider "c = (room_id, t, direction)" | "c \<in> set calls" by auto
      then show "\<exists>b d. c = (room_id, b, d) \<and> in_positions b \<and> (d, PStr b) \<in> set (e # exits)"
      proof cases
        case 1
        with t e show ?thesis by simp
      next
        case 2
        with calls(5) obtain b d where "c = (room_id, b, d)" "in_positions b" "(d, PStr b) \<in> set exits"
          by blast
        then show ?thesis by simp
      qed
    qed
    ultimately show ?thesis by blast
  next
    case False
    have "exits_loop room_id exits (drawn, parts) = Inr (drawn', parts')"
    proof (cases target_room)
      case (PStr t)
      with False have "\<not> in_positions t \<or> conn_key room_id t \<in> drawn" by blast
      with Cons.prems e PStr show ?thesis by (auto split: if_splits)
    qed (use Cons.prems e in simp_all)
    from Cons.IH [OF this] obtain calls where calls:
      "parts' = parts @ map render_call calls"
      "drawn' = drawn \<union> call_key ` set calls"
      "distinct (map call_key calls)"
      "call_key ` set calls \<inter> drawn = {}"
      "\<forall>c \<in> set calls. \<exists>b d. c = (room_id, b, d) \<and> in_positions b \<and> (d, PStr b) \<in> set exits"
      by blast
    have "\<forall>c \<in> set calls. \<exists>b d. c = (room_id, b, d) \<and> in_positions b
        \<and> (d, PStr b) \<in> set (e # exits)"
    proof
      fix c assume "c \<in> set calls"
      with calls(5) obtain b d where "c = (room_id, b, d)" "in_positions b" "(d, PStr b) \<in> set exits"
        by blast
      then show "\<exists>b d. c = (room_id, b, d) \<and> in_positions b \<and> (d, PStr b) \<in> set (e # exits)"
        by simp
    qed
    with calls(1-4) show ?thesis by blast
  qed
qed

lemma connections_loop_trace:
  "connections_loop rooms (drawn, parts) = Inr (drawn', parts') \<Longrightarrow>
   \<exists>calls. parts' = parts @ map render_call calls
     \<and> drawn' = drawn \<union> call_key ` set calls
     \<and> distinct (map call_key calls)
     \<and> call_key ` set calls \<inter> drawn = {}
     \<and> (\<forall>c \<in> set calls. exit_call rooms c)"
proof (induction rooms arbitrary: drawn parts)
  case Nil
  then show ?case by (intro exI [of _ "[]"]) simp
next
  case (Cons r rooms)
  obtain room_id room_data where r: "r = (room_id, room_data)" by (cases r)
  show ?case
  proof (cases "in_positions room_id")
    case False
    with Cons.prems r have "connections_loop rooms (drawn, parts) = Inr (drawn', parts')"
      by simp
    from Cons.IH [OF this] obtain calls where calls:
      "parts' = parts @ map render_call calls"
      "drawn' = drawn \<union> call_key ` set calls"
      "distinct (map call_key calls)"
      "call_key ` set calls \<inter> drawn = {}"
      "\<forall>c \<in> set calls. exit_call rooms c"
      by blast
    from calls(5) have "\<forall>c \<in> set calls. exit_call (r # rooms) c"
      by (blast intro: exit_call_mono)
    with calls(1-4) show ?thesis by blast
  next
    case True
    from Cons.prems r True obtain kvs where kvs: "exits_of room_data = PDict kvs"
      by (cases "exits_of room_data") (simp_all add: exits_of_def)
    with Cons.prems r True obtain st1 where
      l1: "exits_loop room_id kvs (drawn, parts) = Inr st1" and
      l2: "connections_loop rooms st1 = Inr (drawn', parts')"
      by (cases "exits_loop room_id kvs (drawn, parts)") (simp_all add: exits_of_def)
    obtain drawn1 parts1 where st1: "st1 = (drawn1, parts1)" by (cases st1)
    from exits_loop_trace [OF l1 [unfolded st1]] obtain c1 where c1:
      "parts1 = parts @ map render_call c1"
      "drawn1 = drawn \<union> call_key ` set c1"
      "distinct (map call_key c1)"
      "call_key ` set c1 \<inter> drawn = {}"
      "\<forall>c \<in> set c1. \<exists>b d. c = (room_id, b, d) \<and> in_positions b \<and> (d, PStr b) \<in> set kvs"
      by blast
    from Cons.IH [OF l2 [unfolded st1]] obtain c2 where c2:
      "parts' = parts1 @ map render_call c2"
      "drawn' = drawn1 \<union> call_key ` set c2"
      "distinct (map call_key c2)"
      "call_key ` set c2 \<inter> drawn1 = {}"
      "\<forall>c \<in> set c2. exit_call rooms c"
      by blast
    have "parts' = parts @ map render_call (c1 @ c2)"
      using c1(1) c2(1) by simp
    moreover have "drawn' = drawn \<union> call_key ` set (c1 @ c2)"
      using c1(2) c2(2) by auto
    moreover have "distinct (map call_key (c1 @ c2))"
      using c1(2,3) c2(3,4) by auto
    moreover have "call_key ` set (c1 @ c2) \<inter> drawn = {}"
      using c1(2,4) c2(4) by auto
    moreover have "\<forall>c \<in> set (c1 @ c2). exit_call (r # rooms) c"
    proof
      fix c assume "c \<in> set (c1 @ c2)"
      then consider "c \<in> set c1" | "c \<in> set c2" by auto
      then show "exit_call (r # rooms) c"
      proof cases
        case 1
        with c1(5) obtain b d where "c = (room_id, b, d)" "in_positions b" "(d, PStr b) \<in> set kvs"
          by blast
        with True kvs r show ?thesis unfolding exit_call_def by auto
      next
        case 2
        with c2(5) show ?thesis by (blast intro: exit_call_mono)
      qed
    qed
    ultimately show ?thesis by blast
  qed
qed

lemma is_room_fragment_mono:
  assumes "is_room_fragment str_title rooms cur s"
  shows "is_room_fragment str_title (r # rooms) cur s"
proof -
  from assms consider
      (box) room_id grid_x grid_y level where "room_id \<in> fst ` set rooms"
        "map_of ROOM_POSITIONS room_id = Some (grid_x, grid_y, level)"
        "s = render_room str_title room_id room_id (room_id = cur) level"
    | (indicator) "s \<noteq> []"
        "\<exists>room_id has_up has_down. s = render_vertical_indicator room_id has_up has_down"
    unfolding is_room_fragment_def by blast
  then show ?thesis
  proof cases
    case box
    from box(1) have "room_id \<in> fst ` set (r # rooms)" by auto
    with box(2,3) show ?thesis unfolding is_room_fragment_def by blast
  next
    case indicator
    then show ?thesis unfolding is_room_fragment_def by blast
  qed
qed

lemma rooms_loop_parts:
  "rooms_loop str_title cur rooms parts = Inr parts' \<Longrightarrow>
   \<exists>new. parts' = parts @ new \<and> (\<forall>s \<in> set new. is_room_fragment str_title rooms cur s)"
proof (induction rooms arbitrary: parts)
  case Nil
  then show ?case by simp
next
  case (Cons r rooms)
  obtain room_id room_data where r: "r = (room_id, room_data)" by (cases r)
  show ?case
  proof (cases "map_of ROOM_POSITIONS room_id")
    case None
    with Cons.prems r have "rooms_loop str_title cur rooms parts = Inr parts'" by simp
    from Cons.IH [OF this] show ?thesis
      by (auto intro: is_room_fragment_mono)
  next
    case (Some pos)
    obtain grid_x grid_y level where pos: "pos = (grid_x, grid_y, level)" by (cases pos)
    let ?box = "render_room str_title room_id room_id (room_id = cur) level"
    from Cons.prems r Some pos obtain has_up has_down where
      l: "rooms_loop str_title cur rooms
            (if render_vertical_indicator room_id has_up has_down \<noteq> []
             then (parts @ [?box]) @ [render_vertical_indicator room_id has_up has_down]
             else parts @ [?box]) = Inr parts'"
      by (cases "py_in ''up'' (dict_get room_data ''exits'' (PDict []))";
          cases "py_in ''down'' (dict_get room_data ''exits'' (PDict []))")
         (simp_all add: Let_def)
    let ?ind = "render_vertical_indicator room_id has_up has_down"
    let ?mine = "if ?ind \<noteq> [] then [?box, ?ind] else [?box]"
    from l have "rooms_loop str_title cur rooms (parts @ ?mine) = Inr parts'"
      by (simp split: if_splits)
    from Cons.IH [OF this] obtain new where new:
      "parts' = (parts @ ?mine) @ new" "\<forall>s \<in> set new. is_room_fragment str_title rooms cur s"
      by blast
    have "room_id \<in> fst ` set (r # rooms)" using r by simp
    with Some pos have box: "is_room_fragment str_title (r # rooms) cur ?box"
      unfolding is_room_fragment_def by blast
    have ind: "?ind \<noteq> [] \<Longrightarrow> is_room_fragment str_title (r # rooms) cur ?ind"
      unfolding is_room_fragment_def by blast
    have "parts' = parts @ (?mine @ new)" using new(1) by simp
    moreover have "\<forall>s \<in> set (?mine @ new). is_room_fragment str_title (r # rooms) cur s"
      using new(2) box ind by (auto intro: is_room_fragment_mono)
    ultimately show ?thesis by blast
  qed
qed

lemma room_fragment_not_line: "is_room_fragment str_title rooms cur s \<Longrightarrow> \<not> is_line_fragment s"
  unfolding is_room_fragment_def by auto

lemma svg_parts_structure:
  assumes "svg_parts str_title rooms cur = Inr parts"
  shows "\<exists>calls boxes.
     parts = svg_header @ map render_call calls @ ['''', ''  <!-- Rooms -->''] @ boxes
               @ ['''', ''  <!-- Legend -->'', legend str_title 520 cur, ''</svg>'']
     \<and> distinct (map call_key calls)
     \<and> (\<forall>c \<in> set calls. exit_call rooms c)
     \<and> (\<forall>s \<in> set boxes. is_room_fragment str_title rooms cur s)"
proof -
  from assms obtain drawn p1 p2 where
    l1: "connections_loop rooms ({}, svg_header) = Inr (drawn, p1)" and
    l2: "rooms_loop str_title cur rooms (p1 @ ['''', ''  <!-- Rooms -->'']) = Inr p2" and
    p: "parts = p2 @ ['''', ''  <!-- Legend -->'', legend str_title 520 cur, ''</svg>'']"
    unfolding svg_parts_def canvas_size_value svg_header_def
    by (auto simp: Let_def show_520 split: sum.splits)
  from connections_loop_trace [OF l1] obtain calls where calls:
    "p1 = svg_header @ map render_call calls"
    "distinct (map call_key calls)"
    "\<forall>c \<in> set calls. exit_call rooms c"
    by blast
  from rooms_loop_parts [OF l2] obtain boxes where boxes:
    "p2 = (p1 @ ['''', ''  <!-- Rooms -->'']) @ boxes" "\<forall>s \<in> set boxes. is_room_fragment str_title rooms cur s"
    by blast
  have "parts = svg_header @ map render_call calls @ ['''', ''  <!-- Rooms -->''] @ boxes
               @ ['''', ''  <!-- Legend -->'', legend str_title 520 cur, ''</svg>'']"
    using p boxes(1) calls(1) by simp
  with calls(2,3) boxes(2) show ?thesis by blast
qed

lemma svg_parts_unfold:
  "svg_parts str_title rooms cur =
     (case connections_loop rooms ({}, svg_header) of
        Inl e \<Rightarrow> Inl e
      | Inr (drawn, parts) \<Rightarrow>
          (case rooms_loop str_title cur rooms (parts @ ['''', ''  <!-- Rooms -->'']) of
             Inl e \<Rightarrow> Inl e
           | Inr parts \<Rightarrow> Inr (parts @ ['''', ''  <!-- Legend -->'', legend str_title 520 cur, ''</svg>''])))"
  unfolding svg_parts_def canvas_size_value svg_header_def Let_def
  by (simp add: show_520)

lemma line_fragments_of_structure:
  assumes "parts = svg_header @ map render_call calls @ ['''', ''  <!-- Rooms -->''] @ boxes
               @ ['''', ''  <!-- Legend -->'', legend str_title 520 cur, ''</svg>'']"
    and "\<forall>s \<in> set boxes. is_room_fragment str_title rooms cur s"
  shows "filter is_line_fragment parts = map render_call calls"
proof -
  have 1: "filter is_line_fragment svg_header = []"
    by (simp add: filter_empty_conv header_not_line)
  have 2: "filter is_line_fragment (map render_call calls) = map render_call calls"
    by (simp add: filter_id_conv render_call_line)
  have 3: "filter is_line_fragment boxes = []"
    using assms(2) by (auto simp: filter_empty_conv dest: room_fragment_not_line)
  have 4: "\<not> is_line_fragment ''''" "\<not> is_line_fragment ''  <!-- Rooms -->''"
    "\<not> is_line_fragment ''  <!-- Legend -->''" "\<not> is_line_fragment ''</svg>''"
    unfolding is_line_fragment_def by simp_all
  show ?thesis unfolding assms(1) by (simp add: 1 2 3 4)
qed

lemma split_order:
  assumes xs: "xs = pre @ post"
    and pre: "\<forall>s \<in> set pre. \<not> B s"
    and post: "\<forall>s \<in> set post. \<not> L s"
    and i: "i < length xs" "L (xs ! i)"
    and j: "j < length xs" "B (xs ! j)"
  shows "i < j"
proof -
  have "i < length pre"
  proof (rule ccontr)
    assume "\<not> i < length pre"
    with xs i(1) have "xs ! i = post ! (i - length pre)" "i - length pre < length post"
      by (auto simp: nth_append)
    then have "xs ! i \<in> set post" by simp
    with post i(2) show False by blast
  qed
  moreover have "length pre \<le> j"
  proof (rule ccontr)
    assume "\<not> length pre \<le> j"
    with xs have "xs ! j = pre ! j" "j < length pre"
      by (auto simp: nth_append)
    then have "xs ! j \<in> set pre" by simp
    with pre j(2) show False by blast
  qed
  ultimately show ?thesis by simp
qed

subsection \<open>When the loops succeed\<close>

lemma exits_loop_total:
  "list_all (\<lambda>(direction, target_room). hashable target_room) exits \<Longrightarrow>
     \<exists>st'. exits_loop room_id exits st = Inr st'"
proof (induction exits arbitrary: st)
  case Nil
  then show ?case by simp
next
  case (Cons e exits)
  obtain direction target_room where e: "e = (direction, target_room)" by (cases e)
  obtain drawn parts where st: "st = (drawn, parts)" by (cases st)
  from Cons.prems e have h: "hashable target_room"
    and rest: "list_all (\<lambda>(direction, target_room). hashable target_room) exits"
    by simp_all
  have same: "\<exists>st'. exits_loop room_id exits (drawn, parts) = Inr st'"
    by (rule Cons.IH [OF rest])
  show ?case
  proof (cases target_room)
    case (PStr t)
    have "\<exists>st'. exits_loop room_id exits
            (insert (conn_key room_id t) drawn, parts @ [render_connection room_id t direction]) = Inr st'"
      by (rule Cons.IH [OF rest])
    with same show ?thesis unfolding e st PStr by simp
  qed (use h same in \<open>simp_all add: e st\<close>)
qed

lemma exits_wf_items:
  "exits_wf room_data \<Longrightarrow>
     \<exists>kvs. exits_of room_data = PDict kvs \<and> list_all (\<lambda>(direction, target_room). hashable target_room) kvs"
  unfolding exits_wf_def exits_of_def dict_get_def
  by (auto split: option.splits pyval.splits)

lemma connections_loop_total:
  "\<forall>(room_id, room_data) \<in> set rooms. in_positions room_id \<longrightarrow> exits_wf room_data \<Longrightarrow>
     \<exists>st'. connections_loop rooms st = Inr st'"
proof (induction rooms arbitrary: st)
  case Nil
  then show ?case by simp
next
  case (Cons r rooms)
  obtain room_id room_data where r: "r = (room_id, room_data)" by (cases r)
  from Cons.prems have rest:
    "\<forall>(room_id, room_data) \<in> set rooms. in_positions room_id \<longrightarrow> exits_wf room_data"
    by simp
  show ?case
  proof (cases "in_positions room_id")
    case False
    with Cons.IH [OF rest, of st] r show ?thesis by simp
  next
    case True
    with Cons.prems r have "exits_wf room_data" by simp
    from exits_wf_items [OF this] obtain kvs where kvs:
      "exits_of room_data = PDict kvs" "list_all (\<lambda>(direction, target_room). hashable target_room) kvs"
      by blast
    from exits_loop_total [OF kvs(2), of room_id st] obtain st1 where
      st1: "exits_loop room_id kvs st = Inr st1" by blast
    from Cons.IH [OF rest, of st1] obtain st' where "connections_loop rooms st1 = Inr st'" by blast
    with True r kvs(1) st1 show ?thesis by (simp add: exits_of_def)
  qed
qed

lemma rooms_loop_total:
  "\<forall>(room_id, room_data) \<in> set rooms. in_positions room_id \<longrightarrow> exits_wf room_data \<Longrightarrow>
     \<exists>parts'. rooms_loop str_title cur rooms parts = Inr parts'"
proof (induction rooms arbitrary: parts)
  case Nil
  then show ?case by simp
next
  case (Cons r rooms)
  obtain room_id room_data where r: "r = (room_id, room_data)" by (cases r)
  from Cons.prems have rest:
    "\<forall>(room_id, room_data) \<in> set rooms. in_positions room_id \<longrightarrow> exits_wf room_data"
    by simp
  show ?case
  proof (cases "map_of ROOM_POSITIONS room_id")
    case None
    with Cons.IH [OF rest, of parts] r show ?thesis by simp
  next
    case (Some pos)
    obtain grid_x grid_y level where pos: "pos = (grid_x, grid_y, level)" by (cases pos)
    from Some have "in_positions room_id" by (simp add: in_positions_def)
    with Cons.prems r have "exits_wf room_data" by simp
    from exits_wf_items [OF this] obtain kvs where kvs: "exits_of room_data = PDict kvs"
      by blast
    then have kvs': "dict_get room_data ''exits'' (PDict []) = PDict kvs"
      by (simp add: exits_of_def)
    show ?thesis unfolding r
      by (simp add: Some pos kvs' Let_def Cons.IH [OF rest])
  qed
qed

lemma svg_parts_total:
  assumes "\<forall>(room_id, room_data) \<in> set rooms. in_positions room_id \<longrightarrow> exits_wf room_data"
  shows "\<exists>parts. svg_parts str_title rooms cur = Inr parts"
proof -
  from connections_loop_total [OF assms, of "({}, svg_header)"] obtain drawn p1 where
    l1: "connections_loop rooms ({}, svg_header) = Inr (drawn, p1)" by force
  from rooms_loop_total [OF assms, of str_title cur "p1 @ ['''', ''  <!-- Rooms -->'']"] obtain p2 where
    l2: "rooms_loop str_title cur rooms (p1 @ ['''', ''  <!-- Rooms -->'']) = Inr p2" by blast
  show ?thesis unfolding svg_parts_unfold l1 by (simp add: l2)
qed

lemma document_shape:
  assumes "svg_parts str_title rooms cur = Inr parts"
  shows "prefix ''<svg '' (join ''\<newline>'' parts) \<and> suffix ''</svg>'' (join ''\<newline>'' parts)"
proof -
  from svg_parts_structure [OF assms] obtain calls boxes where s:
    "parts = svg_header @ map render_call calls @ ['''', ''  <!-- Rooms -->''] @ boxes
               @ ['''', ''  <!-- Legend -->'', legend str_title 520 cur, ''</svg>'']"
    by blast
  have ne: "parts \<noteq> []" unfolding s by (simp add: svg_header_def)
  have "prefix (hd parts) (join ''\<newline>'' parts)"
    using ne by (rule join_first)
  moreover have \<open>hd parts = ''<svg viewBox="0 0 520 520" xmlns="http://www.w3.org/2000/svg">''\<close>
    unfolding s by (simp add: svg_header_def)
  ultimately have p: "prefix ''<svg '' (join ''\<newline>'' parts)"
    by (auto simp: prefix_def)
  have "suffix (last parts) (join ''\<newline>'' parts)"
    using ne by (rule join_last)
  moreover have "last parts = ''</svg>''" unfolding s by simp
  ultimately show ?thesis using p by simp
qed

lemma render_total:
  assumes "\<forall>(room_id, room_data) \<in> set rooms. in_positions room_id \<longrightarrow> exits_wf room_data"
  shows "\<exists>doc. render_map_svg str_title rooms cur = Inr doc \<and> prefix ''<svg '' doc \<and> suffix ''</svg>'' doc"
proof -
  from svg_parts_total [OF assms] obtain parts where parts: "svg_parts str_title rooms cur = Inr parts"
    by blast
  then have "render_map_svg str_title rooms cur = Inr (join ''\<newline>'' parts)"
    unfolding render_map_svg_def by simp
  with document_shape [OF parts] show ?thesis by blast
qed

subsection \<open>Records the loops do not tell apart\<close>

lemma connections_loop_append:
  "connections_loop (xs @ ys) st =
     (case connections_loop xs st of Inl e \<Rightarrow> Inl e | Inr st' \<Rightarrow> connections_loop ys st')"
  by (induction xs st rule: connections_loop.induct) (auto split: sum.splits)

lemma rooms_loop_append:
  "rooms_loop str_title cur (xs @ ys) parts =
     (case rooms_loop str_title cur xs parts of Inl e \<Rightarrow> Inl e | Inr parts' \<Rightarrow> rooms_loop str_title cur ys parts')"
proof (induction xs arbitrary: parts)
  case Nil
  then show ?case by simp
next
  case (Cons r xs)
  obtain room_id room_data where r: "r = (room_id, room_data)" by (cases r)
  show ?case
  proof (cases "map_of ROOM_POSITIONS room_id")
    case None
    then show ?thesis unfolding r by (simp add: Cons.IH)
  next
    case (Some pos)
    obtain grid_x grid_y level where pos: "pos = (grid_x, grid_y, level)" by (cases pos)
    show ?thesis unfolding r
      by (simp add: Some pos Let_def Cons.IH split: sum.splits)
  qed
qed

lemma svg_parts_skip_unknown:
  assumes "\<not> in_positions room_id"
  shows "svg_parts str_title (pre @ (room_id, room_data) # post) cur = svg_parts str_title (pre @ post) cur"
proof -
  from assms have n: "map_of ROOM_POSITIONS room_id = None"
    unfolding in_positions_def by blast
  have 1: "connections_loop ((room_id, room_data) # post) st = connections_loop post st" for st
    using assms by simp
  have 2: "rooms_loop str_title cur ((room_id, room_data) # post) parts = rooms_loop str_title cur post parts" for parts
    using n by simp
  show ?thesis
    unfolding svg_parts_def connections_loop_append rooms_loop_append 1 2 ..
qed

lemma svg_parts_same_exits:
  assumes "exits_of room_data = exits_of room_data'"
  shows "svg_parts str_title (pre @ (room_id, room_data) # post) cur = svg_parts str_title (pre @ (room_id, room_data') # post) cur"
proof -
  from assms have e: "dict_get room_data ''exits'' (PDict []) = dict_get room_data' ''exits'' (PDict [])"
    by (simp add: exits_of_def)
  have 1: "connections_loop ((room_id, room_data) # post) st = connections_loop ((room_id, room_data') # post) st" for st
    by (simp add: e)
  have 2: "rooms_loop str_title cur ((room_id, room_data) # post) parts = rooms_loop str_title cur ((room_id, room_data') # post) parts" for parts
  proof (cases "map_of ROOM_POSITIONS room_id")
    case None
    then show ?thesis by simp
  next
    case (Some pos)
    obtain grid_x grid_y level where pos: "pos = (grid_x, grid_y, level)" by (cases pos)
    show ?thesis by (simp add: Some pos e Let_def)
  qed
  show ?thesis
    unfolding svg_parts_def connections_loop_append rooms_loop_append 1 2 ..
qed

subsection \<open>Boxes of rooms that are not current\<close>

lemma table_cases:
  assumes "map_of ROOM_POSITIONS room_id = Some (grid_x, grid_y, level)"
  shows "(room_id, level) \<in> {(''tavern'', 0), (''cellar'', - 1), (''street'', 0), (''market'', 0),
            (''blacksmith'', 0), (''temple'', 0), (''village_gate'', 0), (''forest_path'', 0)}"
proof -
  from assms have "(room_id, grid_x, grid_y, level) \<in> set ROOM_POSITIONS"
    by (rule map_of_SomeD)
  then show ?thesis unfolding ROOM_POSITIONS_def by auto
qed

lemma plain_boxes:
  "\<not> is_current_box (render_room str_title ''tavern'' ''tavern'' False 0)"
  "\<not> is_current_box (render_room str_title ''cellar'' ''cellar'' False (- 1))"
  "\<not> is_current_box (render_room str_title ''street'' ''street'' False 0)"
  "\<not> is_current_box (render_room str_title ''market'' ''market'' False 0)"
  "\<not> is_current_box (render_room str_title ''blacksmith'' ''blacksmith'' False 0)"
  "\<not> is_current_box (render_room str_title ''temple'' ''temple'' False 0)"
  "\<not> is_current_box (render_room str_title ''village_gate'' ''village_gate'' False 0)"
  "\<not> is_current_box (render_room str_title ''forest_path'' ''forest_path'' False 0)"
  by code_simp+

lemma plain_box_not_current:
  assumes "map_of ROOM_POSITIONS room_id = Some (grid_x, grid_y, level)"
  shows "\<not> is_current_box (render_room str_title room_id room_id False level)"
  using table_cases [OF assms] plain_boxes by auto

lemma room_fragment_not_current:
  assumes "is_room_fragment str_title rooms cur s" and "cur \<notin> fst ` set rooms \<or> \<not> in_positions cur"
  shows "\<not> is_current_box s"
proof -
  from assms(1) consider room_id grid_x grid_y level where
      "room_id \<in> fst ` set rooms" "map_of ROOM_POSITIONS room_id = Some (grid_x, grid_y, level)"
      "s = render_room str_title room_id room_id (room_id = cur) level"
    | room_id has_up has_down where "s \<noteq> []" "s = render_vertical_indicator room_id has_up has_down"
    unfolding is_room_fragment_def by blast
  then show ?thesis
  proof cases
    case 1
    from 1(2) have "in_positions room_id" by (simp add: in_positions_def)
    with 1(1) assms(2) have "room_id \<noteq> cur" by blast
    with 1(3) plain_box_not_current [OF 1(2)] show ?thesis by simp
  next
    case 2
    then show ?thesis unfolding is_current_box_def by simp
  qed
qed

lemma distinct_filter_le_one:
  "distinct (map f xs) \<Longrightarrow> length (filter (\<lambda>x. f x = k) xs) \<le> 1"
proof (induction xs)
  case Nil
  then show ?case by simp
next
  case (Cons x xs)
  show ?case
  proof (cases "f x = k")
    case True
    from Cons.prems have "f x \<notin> f ` set xs" by simp
    with True have "\<forall>y \<in> set xs. f y \<noteq> k" by blast
    then have "filter (\<lambda>x. f x = k) xs = []" by (simp add: filter_empty_conv)
    with True show ?thesis by simp
  next
    case False
    with Cons show ?thesis by simp
  qed
qed

lemma two_way_exit_parts:
  assumes A: "map_of ROOM_POSITIONS A = Some (ax, ay, al)"
    and B: "map_of ROOM_POSITIONS B = Some (bx, by, bl)"
  shows "svg_parts str_title [(A, [(''exits'', PDict [(''north'', PStr B)])]),
                    (B, [(''exits'', PDict [(''south'', PStr A)])])] cur =
         Inr (svg_header @
              [render_connection A B ''north'', '''', ''  <!-- Rooms -->'',
               render_room str_title A A (A = cur) al, render_room str_title B B (B = cur) bl,
               '''', ''  <!-- Legend -->'', legend str_title 520 cur, ''</svg>''])"
proof -
  from A B have p: "in_positions A" "in_positions B" by (simp_all add: in_positions_def)
  have k: "conn_key B A = conn_key A B" by (rule conn_key_commute)
  have l1: "connections_loop [(A, [(''exits'', PDict [(''north'', PStr B)])]),
                    (B, [(''exits'', PDict [(''south'', PStr A)])])] ({}, svg_header) =
        Inr ({conn_key A B}, svg_header @ [render_connection A B ''north''])"
    by (simp add: p k dict_get_def)
  have l2: "rooms_loop str_title cur [(A, [(''exits'', PDict [(''north'', PStr B)])]),
                    (B, [(''exits'', PDict [(''south'', PStr A)])])] parts =
        Inr (parts @ [render_room str_title A A (A = cur) al, render_room str_title B B (B = cur) bl])" for parts
    by (simp add: A B dict_get_def Let_def)
  show ?thesis
    unfolding svg_parts_unfold l1 l2 by simp
qed

section \<open>The coordinate mapper\<close>

text \<open>
  Claim C6. An identifier that is no key of the position table is mapped to the fixed
  fallback coordinate \<open>(0, 0)\<close>; the mapper has no failing branch.
\<close>

theorem get_room_center_fallback:
  "room_id \<notin> fst ` set ROOM_POSITIONS \<Longrightarrow> get_room_center room_id = (0, 0)"
  unfolding get_room_center_def by (simp add: map_of_eq_None_iff [THEN iffD2])

theorem get_room_center_fallback_witness:
  "''dungeon'' \<notin> fst ` set ROOM_POSITIONS \<and> get_room_center ''dungeon'' = (0, 0)"
proof -
  have h: "''dungeon'' \<notin> fst ` set ROOM_POSITIONS"
    by (simp add: ROOM_POSITIONS_def)
  from get_room_center_fallback [OF h] h show ?thesis by simp
qed

text \<open>
  Claim C7. An entry of the position table at grid cell \<open>(grid_x, grid_y)\<close> is mapped to
  \<open>(PADDING + grid_x * CELL_SIZE, PADDING + grid_y * CELL_SIZE)\<close> when its level is not
  negative, and to that coordinate shifted by \<open>(+15, +15)\<close> when its level is negative; so
  the coordinate of an underground entry is the coordinate of every ground-level entry
  of the same cell, shifted by \<open>(+15, +15)\<close>.
\<close>

theorem underground_offset:
  "map_of ROOM_POSITIONS room_id = Some (grid_x, grid_y, level) \<Longrightarrow>
     (0 \<le> level \<longrightarrow>
        get_room_center room_id = (PADDING + grid_x * CELL_SIZE, PADDING + grid_y * CELL_SIZE)) \<and>
     (level < 0 \<longrightarrow>
        get_room_center room_id =
          (PADDING + grid_x * CELL_SIZE + 15, PADDING + grid_y * CELL_SIZE + 15) \<and>
        (\<forall>ground ground_level.
           map_of ROOM_POSITIONS ground = Some (grid_x, grid_y, ground_level) \<and> 0 \<le> ground_level \<longrightarrow>
           get_room_center room_id =
             (fst (get_room_center ground) + 15, snd (get_room_center ground) + 15)))"
  unfolding get_room_center_def by (auto simp: Let_def)

theorem underground_offset_witness:
  "map_of ROOM_POSITIONS ''cellar'' = Some (2, 3, - 1) \<and>
   map_of ROOM_POSITIONS ''tavern'' = Some (2, 3, 0) \<and>
   get_room_center ''cellar'' = (275, 375) \<and>
   get_room_center ''tavern'' = (260, 360) \<and>
   get_room_center ''cellar'' =
     (fst (get_room_center ''tavern'') + 15, snd (get_room_center ''tavern'') + 15)"
proof -
  have c: "map_of ROOM_POSITIONS ''cellar'' = Some (2, 3, - 1)"
    by (simp add: ROOM_POSITIONS_def)
  have t: "map_of ROOM_POSITIONS ''tavern'' = Some (2, 3, 0)"
    by (simp add: ROOM_POSITIONS_def)
  from underground_offset [OF c] underground_offset [OF t] c t show ?thesis
    by (simp add: PADDING_def CELL_SIZE_def)
qed

section \<open>The label of a box\<close>

lemma length_title_from: "length (title_from b s) = length s"
  by (induction s arbitrary: b) auto

lemma is_ascii_replace_char:
  "list_all is_ascii (replace_char CHR ''_'' CHR '' '' s) = list_all is_ascii s"
  by (induction s) (auto simp: replace_char_def is_ascii_def)

text \<open>
  Title-casing of an ASCII string character by character: the first character and every
  character after an uncased one are upper-cased, the others lower-cased.
\<close>

lemma title_from_nth:
  "i < length s \<Longrightarrow>
     title_from b s ! i =
       (if (if i = 0 then b else is_cased (s ! (i - 1))) then to_lower (s ! i) else to_upper (s ! i))"
proof (induction s arbitrary: b i)
  case Nil
  then show ?case by simp
next
  case (Cons c cs)
  show ?case
  proof (cases i)
    case 0
    then show ?thesis by simp
  next
    case (Suc j)
    with Cons.prems have "j < length cs" by simp
    from Cons.IH [OF this, of "is_cased c"] Suc show ?thesis
      by (cases j) auto
  qed
qed

lemma py_title_nth:
  "list_all is_ascii s \<Longrightarrow> i < length s \<Longrightarrow>
     py_title str_title s ! i =
       (if 0 < i \<and> is_cased (s ! (i - 1)) then to_lower (s ! i) else to_upper (s ! i))"
  unfolding py_title_def by (simp add: title_from_nth)

text \<open>
  Claim C5. The label is the name with underscores replaced by spaces and title-cased;
  it is the first 11 characters of that formatted name followed by three dots exactly
  when the formatted name is longer than 12 characters, and the formatted name itself
  otherwise. This holds for every name and whatever \<^verbatim>\<open>str.title\<close> returns: a name with a
  character outside ASCII is formatted by \<open>str_title\<close> itself, and the length that decides
  is the length of its result. The name \<^verbatim>\<open>village_gate\<close> gives the label \<^verbatim>\<open>Village Gate\<close>.
  The label is the content of the text element that ends the box.
\<close>

theorem room_label:
  "(display_name str_title name = take 11 (py_title str_title (replace_char CHR ''_'' CHR '' '' name)) @ ''...'')
     = (12 < length (py_title str_title (replace_char CHR ''_'' CHR '' '' name))) \<and>
   (length (py_title str_title (replace_char CHR ''_'' CHR '' '' name)) \<le> 12 \<longrightarrow>
      display_name str_title name = py_title str_title (replace_char CHR ''_'' CHR '' '' name)) \<and>
   (\<not> list_all is_ascii name \<longrightarrow>
      py_title str_title (replace_char CHR ''_'' CHR '' '' name) =
        str_title (replace_char CHR ''_'' CHR '' '' name)) \<and>
   display_name str_title ''village_gate'' = ''Village Gate'' \<and>
   suffix (''>'' @ display_name str_title name @ ''</text>'') (render_room str_title room_id name is_current level)"
proof -
  let ?f = "py_title str_title (replace_char CHR ''_'' CHR '' '' name)"
  have a: "12 < length ?f \<Longrightarrow> display_name str_title name = take 11 ?f @ ''...''"
    by (simp add: display_name_def format_name_def)
  have b: "length ?f \<le> 12 \<Longrightarrow> display_name str_title name = ?f"
    by (simp add: display_name_def format_name_def)
  have c: "length ?f \<le> 12 \<Longrightarrow> ?f \<noteq> take 11 ?f @ ''...''"
  proof
    assume le: "length ?f \<le> 12" and eq: "?f = take 11 ?f @ ''...''"
    have "length (take 11 ?f @ ''...'') = min (length ?f) 11 + 3" by simp
    with eq have "length ?f = min (length ?f) 11 + 3" by simp
    with le show False by (simp add: min_def split: if_splits)
  qed
  have n: "\<not> list_all is_ascii name \<Longrightarrow> ?f = str_title (replace_char CHR ''_'' CHR '' '' name)"
    by (simp add: py_title_def is_ascii_replace_char)
  have d: "display_name str_title ''village_gate'' = ''Village Gate''"
    by code_simp
  have e: "suffix (''>'' @ display_name str_title name @ ''</text>'') (render_room str_title room_id name is_current level)"
    unfolding render_room_def Let_def suffix_def
    by (auto split: prod.splits)
  from a b c n d e show ?thesis by (cases "12 < length ?f") auto
qed

theorem room_label_witness:
  "length (py_title sample_title (replace_char CHR ''_'' CHR '' '' ''village_gate'')) \<le> 12 \<and>
   display_name sample_title ''village_gate'' = ''Village Gate'' \<and>
   12 < length (py_title sample_title (replace_char CHR ''_'' CHR '' '' ''the_old_forest_path'')) \<and>
   display_name sample_title ''the_old_forest_path'' = ''The Old For...'' \<and>
   \<not> list_all is_ascii (CHR 0xDF # ''illage_gate'') \<and>
   py_title sample_title (replace_char CHR ''_'' CHR '' '' (CHR 0xDF # ''illage_gate'')) = ''Ssillage Gate'' \<and>
   12 < length (py_title sample_title (replace_char CHR ''_'' CHR '' '' (CHR 0xDF # ''illage_gate''))) \<and>
   display_name sample_title (CHR 0xDF # ''illage_gate'') = ''Ssillage Ga...''"
proof -
  have f1: "py_title sample_title (replace_char CHR ''_'' CHR '' '' ''village_gate'') = ''Village Gate''"
    by code_simp
  have f2: "py_title sample_title (replace_char CHR ''_'' CHR '' '' ''the_old_forest_path'') = ''The Old Forest Path''"
    by code_simp
  have f3: "py_title sample_title (replace_char CHR ''_'' CHR '' '' (CHR 0xDF # ''illage_gate'')) = ''Ssillage Gate''"
    by code_simp
  have n: "\<not> list_all is_ascii (CHR 0xDF # ''illage_gate'')"
    by (simp add: is_ascii_def)
  have w1: "display_name sample_title ''village_gate'' = ''Village Gate''"
    using room_label [of sample_title "''village_gate''"] by blast
  have w2: "display_name sample_title ''the_old_forest_path'' = ''The Old For...''"
    using room_label [of sample_title "''the_old_forest_path''", THEN conjunct1]
    unfolding f2 by simp
  have w3: "display_name sample_title (CHR 0xDF # ''illage_gate'') = ''Ssillage Ga...''"
    using room_label [of sample_title "CHR 0xDF # ''illage_gate''", THEN conjunct1]
    unfolding f3 by simp
  show ?thesis unfolding f1 f2 f3 using n w1 w2 w3 by simp
qed

text \<open>
  Claim C10. When the formatted name is longer than 12 characters the label has exactly
  14 characters: 11 kept characters and the three dots. The truncated label is therefore
  itself longer than 12 characters, and longer than a formatted name of 13 characters.
  The formatted name is measured as \<^verbatim>\<open>str.title\<close> returns it, so a name of 12 characters
  that title-casing lengthens to 13 is covered.
\<close>

theorem truncated_label_length:
  "12 < length (py_title str_title (replace_char CHR ''_'' CHR '' '' name)) \<Longrightarrow>
     display_name str_title name = take 11 (py_title str_title (replace_char CHR ''_'' CHR '' '' name)) @ ''...'' \<and>
     length (display_name str_title name) = 14 \<and>
     12 < length (display_name str_title name) \<and>
     (length (py_title str_title (replace_char CHR ''_'' CHR '' '' name)) = 13 \<longrightarrow>
        length (py_title str_title (replace_char CHR ''_'' CHR '' '' name)) < length (display_name str_title name))"
  by (simp add: display_name_def format_name_def)

theorem truncated_label_length_witness:
  "length (CHR 0xDF # ''illage_gate'') = 12 \<and>
   py_title sample_title (replace_char CHR ''_'' CHR '' '' (CHR 0xDF # ''illage_gate'')) = ''Ssillage Gate'' \<and>
   length (py_title sample_title (replace_char CHR ''_'' CHR '' '' (CHR 0xDF # ''illage_gate''))) = 13 \<and>
   display_name sample_title (CHR 0xDF # ''illage_gate'') = ''Ssillage Ga...'' \<and>
   length (display_name sample_title (CHR 0xDF # ''illage_gate'')) = 14 \<and>
   length (py_title sample_title (replace_char CHR ''_'' CHR '' '' ''thirteen_char'')) = 13 \<and>
   display_name sample_title ''thirteen_char'' = ''Thirteen Ch...'' \<and>
   length (display_name sample_title ''thirteen_char'') = 14"
proof -
  have f: "py_title sample_title (replace_char CHR ''_'' CHR '' '' (CHR 0xDF # ''illage_gate'')) = ''Ssillage Gate''"
    by code_simp
  have g: "py_title sample_title (replace_char CHR ''_'' CHR '' '' ''thirteen_char'') = ''Thirteen Char''"
    by code_simp
  have h: "12 < length (py_title sample_title (replace_char CHR ''_'' CHR '' '' (CHR 0xDF # ''illage_gate'')))"
    unfolding f by simp
  have k: "12 < length (py_title sample_title (replace_char CHR ''_'' CHR '' '' ''thirteen_char''))"
    unfolding g by simp
  from truncated_label_length [OF h] truncated_label_length [OF k] show ?thesis
    unfolding f g by simp
qed

subsection \<open>The end-to-end example, evaluated\<close>

lemma example_svg_parts: "svg_parts str_title example_rooms ''tavern'' = Inr (example_parts str_title)"
  unfolding example_parts_def by code_simp

lemma example_line:
  \<open>render_connection ''street'' ''village_gate'' ''north'' =
     ''  <line x1="260" y1="235" x2="260" y2="185" stroke="#888" stroke-width="2"/>''\<close>
  by code_simp

lemma example_legend:
  \<open>legend str_title 520 ''tavern'' =
     ''  <text x="10" y="510" font-family="Arial, sans-serif" font-size="10" fill="#666">Current location: Tavern</text>''\<close>
  by code_simp

lemma example_current_box: "is_current_box (render_room str_title ''tavern'' ''tavern'' True 0)"
  by code_simp

section \<open>The composer\<close>

subsection \<open>The end-to-end example\<close>

text \<open>
  Claim C1. For the mapping of the tavern (no exits) and the street (north to the village
  gate) with the tavern current, the composer returns a document with exactly one box
  styled as current, the box of the tavern; exactly one connection line, from the street
  to the village gate, which is in the position table but not supplied and so has no box
  (the boxes are those of the tavern and the street); and the legend text
  \<^verbatim>\<open>Current location: Tavern\<close>. The counts are taken on the fragments and on the document.
  The names of the example are ASCII, so the result does not depend on \<open>str_title\<close>.
\<close>

theorem end_to_end_example:
  \<open>svg_parts str_title example_rooms ''tavern'' = Inr (example_parts str_title) \<and>
   render_map_svg str_title example_rooms ''tavern'' = Inr (join ''\<newline>'' (example_parts str_title)) \<and>
   filter is_current_box (example_parts str_title) = [render_room str_title ''tavern'' ''tavern'' True 0] \<and>
   filter is_box_fragment (example_parts str_title) =
     [render_room str_title ''tavern'' ''tavern'' True 0, render_room str_title ''street'' ''street'' False 0] \<and>
   filter is_line_fragment (example_parts str_title) = [render_connection ''street'' ''village_gate'' ''north''] \<and>
   render_connection ''street'' ''village_gate'' ''north'' =
     ''  <line x1="260" y1="235" x2="260" y2="185" stroke="#888" stroke-width="2"/>'' \<and>
   in_positions ''village_gate'' \<and> ''village_gate'' \<notin> fst ` set example_rooms \<and>
   legend str_title 520 ''tavern'' \<in> set (example_parts str_title) \<and>
   legend str_title 520 ''tavern'' =
     ''  <text x="10" y="510" font-family="Arial, sans-serif" font-size="10" fill="#666">Current location: Tavern</text>'' \<and>
   count_occurrences ''fill="#4a9eff"'' (join ''\<newline>'' (example_parts str_title)) = 1 \<and>
   count_occurrences ''<line '' (join ''\<newline>'' (example_parts str_title)) = 1 \<and>
   count_occurrences ''Current location: Tavern</text>'' (join ''\<newline>'' (example_parts str_title)) = 1\<close>
proof -
  have d: "render_map_svg str_title example_rooms ''tavern'' = Inr (join ''\<newline>'' (example_parts str_title))"
    unfolding render_map_svg_def example_svg_parts by simp
  have lits:
    "\<not> is_box_fragment ''''" "\<not> is_line_fragment ''''"
    "\<not> is_box_fragment ''  <!-- Rooms -->''" "\<not> is_line_fragment ''  <!-- Rooms -->''"
    "\<not> is_box_fragment ''  <!-- Legend -->''" "\<not> is_line_fragment ''  <!-- Legend -->''"
    "\<not> is_box_fragment ''</svg>''" "\<not> is_line_fragment ''</svg>''"
    unfolding is_box_fragment_def is_line_fragment_def by simp_all
  have h: "filter is_box_fragment svg_header = []" "filter is_line_fragment svg_header = []"
    by (simp_all add: filter_empty_conv header_not_box header_not_line)
  have hc: "filter is_current_box svg_header = []"
    by (simp add: filter_empty_conv is_current_box_def header_not_box)
  have f1: "filter is_current_box (example_parts str_title) = [render_room str_title ''tavern'' ''tavern'' True 0]"
    unfolding example_parts_def filter_append hc
    by (simp add: example_current_box plain_boxes) (simp add: is_current_box_def lits)
  have f2: "filter is_box_fragment (example_parts str_title) =
     [render_room str_title ''tavern'' ''tavern'' True 0, render_room str_title ''street'' ''street'' False 0]"
    unfolding example_parts_def filter_append h by (simp add: lits)
  have f3: "filter is_line_fragment (example_parts str_title) = [render_connection ''street'' ''village_gate'' ''north'']"
    unfolding example_parts_def filter_append h by (simp add: lits)
  have g: "in_positions ''village_gate''" "''village_gate'' \<notin> fst ` set example_rooms"
    by (simp_all add: in_positions_def ROOM_POSITIONS_def example_rooms_def)
  have m: "legend str_title 520 ''tavern'' \<in> set (example_parts str_title)"
    unfolding example_parts_def by simp
  have c1: \<open>count_occurrences ''fill="#4a9eff"'' (join ''\<newline>'' (example_parts str_title)) = 1\<close>
    unfolding example_parts_def by code_simp
  have c3: "count_occurrences ''<line '' (join ''\<newline>'' (example_parts str_title)) = 1"
    unfolding example_parts_def by code_simp
  have c4: "count_occurrences ''Current location: Tavern</text>'' (join ''\<newline>'' (example_parts str_title)) = 1"
    unfolding example_parts_def by code_simp
  show ?thesis
    by (intro conjI) (fact example_svg_parts d f1 f2 f3 example_line g m example_legend c1 c3 c4)+
qed

subsection \<open>Connections\<close>

text \<open>
  Claim C2. The connection lines of the output are the renderings of a list of exits of
  the supplied rooms in which every unordered pair of identifiers occurs at most once,
  however many directional exits name the pair. When \<open>A\<close> has the exit north to \<open>B\<close> and
  \<open>B\<close> the exit south to \<open>A\<close>, both in the position table, the output has exactly one
  connection line, the one drawn from \<open>A\<close> to \<open>B\<close>.
\<close>

theorem connection_drawn_once:
  "(svg_parts str_title rooms cur = Inr parts \<longrightarrow>
      (\<exists>calls. filter is_line_fragment parts = map render_call calls \<and>
         (\<forall>c \<in> set calls. exit_call rooms c) \<and>
         (\<forall>a b. length (filter (\<lambda>(x, y, d). {x, y} = {a, b}) calls) \<le> 1))) \<and>
   (in_positions A \<and> in_positions B \<longrightarrow>
      (\<exists>parts'. svg_parts str_title [(A, [(''exits'', PDict [(''north'', PStr B)])]),
                           (B, [(''exits'', PDict [(''south'', PStr A)])])] cur' = Inr parts' \<and>
         filter is_line_fragment parts' = [render_connection A B ''north'']))"
proof -
  have 1: "\<exists>calls. filter is_line_fragment parts = map render_call calls \<and>
         (\<forall>c \<in> set calls. exit_call rooms c) \<and>
         (\<forall>a b. length (filter (\<lambda>(x, y, d). {x, y} = {a, b}) calls) \<le> 1)"
    if a: "svg_parts str_title rooms cur = Inr parts"
  proof -
    from svg_parts_structure [OF a] obtain calls boxes where s:
      "parts = svg_header @ map render_call calls @ ['''', ''  <!-- Rooms -->''] @ boxes
               @ ['''', ''  <!-- Legend -->'', legend str_title 520 cur, ''</svg>'']"
      "distinct (map call_key calls)"
      "\<forall>c \<in> set calls. exit_call rooms c"
      "\<forall>s \<in> set boxes. is_room_fragment str_title rooms cur s"
      by blast
    have f: "filter is_line_fragment parts = map render_call calls"
      using s(1,4) by (rule line_fragments_of_structure)
    have "length (filter (\<lambda>(x, y, d). {x, y} = {a, b}) calls) \<le> 1" for a b
    proof -
      have "(\<lambda>(x, y, d). {x, y} = {a, b}) = (\<lambda>c. call_key c = conn_key a b)"
        by (auto simp: call_key_def conn_key_eq_iff fun_eq_iff)
      with distinct_filter_le_one [OF s(2), of "conn_key a b"] show ?thesis by simp
    qed
    with f s(3) show ?thesis by blast
  qed
  have 2: "\<exists>parts'. svg_parts str_title [(A, [(''exits'', PDict [(''north'', PStr B)])]),
                           (B, [(''exits'', PDict [(''south'', PStr A)])])] cur' = Inr parts' \<and>
         filter is_line_fragment parts' = [render_connection A B ''north'']"
    if p: "in_positions A \<and> in_positions B"
  proof -
    from p obtain ax ay al bx "by" bl where
      A: "map_of ROOM_POSITIONS A = Some (ax, ay, al)" and
      B: "map_of ROOM_POSITIONS B = Some (bx, by, bl)"
      unfolding in_positions_def by auto
    let ?parts = "svg_header @
              [render_connection A B ''north'', '''', ''  <!-- Rooms -->'',
               render_room str_title A A (A = cur') al, render_room str_title B B (B = cur') bl,
               '''', ''  <!-- Legend -->'', legend str_title 520 cur', ''</svg>'']"
    have "filter is_line_fragment ?parts = [render_connection A B ''north'']"
      by (simp add: svg_header_def) (simp add: is_line_fragment_def)
    with two_way_exit_parts [OF A B, of str_title cur'] show ?thesis by blast
  qed
  from 1 2 show ?thesis by blast
qed

theorem connection_drawn_once_witness:
  "in_positions ''tavern'' \<and> in_positions ''street'' \<and>
   (\<exists>parts. svg_parts sample_title [(''tavern'', [(''exits'', PDict [(''north'', PStr ''street'')])]),
                       (''street'', [(''exits'', PDict [(''south'', PStr ''tavern'')])])] ''tavern'' = Inr parts \<and>
      filter is_line_fragment parts = [render_connection ''tavern'' ''street'' ''north''] \<and>
      (\<exists>calls. filter is_line_fragment parts = map render_call calls \<and>
         length (filter (\<lambda>(x, y, d). {x, y} = {''tavern'', ''street''}) calls) \<le> 1))"
proof -
  let ?rooms = "[(''tavern'', [(''exits'', PDict [(''north'', PStr ''street'')])]),
                 (''street'', [(''exits'', PDict [(''south'', PStr ''tavern'')])])]"
  have p: "in_positions ''tavern'' \<and> in_positions ''street''"
    by (simp add: in_positions_def ROOM_POSITIONS_def)
  from connection_drawn_once [of sample_title "[]" "''tavern''" "[]" "''tavern''" "''street''" "''tavern''"] p
  obtain parts where parts: "svg_parts sample_title ?rooms ''tavern'' = Inr parts"
      "filter is_line_fragment parts = [render_connection ''tavern'' ''street'' ''north'']"
    by blast
  from connection_drawn_once [of sample_title ?rooms "''tavern''" parts "''tavern''" "''street''" "''tavern''"] parts(1)
  have "\<exists>calls. filter is_line_fragment parts = map render_call calls \<and>
         length (filter (\<lambda>(x, y, d). {x, y} = {''tavern'', ''street''}) calls) \<le> 1"
    by blast
  with p parts show ?thesis by blast
qed

subsection \<open>Rendering without an error\<close>

text \<open>
  Claim C3, as amended. The render operation returns a complete document, from the
  opening to the closing \<^verbatim>\<open>svg\<close> tag, for every current identifier and every mapping in
  which each record of a room of the position table has either no \<^verbatim>\<open>exits\<close> entry or an
  \<^verbatim>\<open>exits\<close> dictionary whose targets are hashable. A missing \<^verbatim>\<open>exits\<close> entry is rendered as
  an empty one; a record whose identifier is not in the position table is skipped,
  whatever it holds, and such an identifier is mapped to \<open>(0, 0)\<close>; an unknown direction
  label leaves the endpoints of the line unadjusted.
\<close>

theorem render_succeeds_on_wellformed_exits:
  "((\<forall>(room_id, room_data) \<in> set rooms. in_positions room_id \<longrightarrow> exits_wf room_data) \<longrightarrow>
      (\<exists>doc. render_map_svg str_title rooms cur = Inr doc \<and> prefix ''<svg '' doc \<and> suffix ''</svg>'' doc)) \<and>
   (map_of room_data ''exits'' = None \<longrightarrow>
      render_map_svg str_title (pre @ (room_id, room_data) # post) cur =
      render_map_svg str_title (pre @ (room_id, (''exits'', PDict []) # room_data) # post) cur) \<and>
   (\<not> in_positions unknown \<longrightarrow>
      render_map_svg str_title (pre @ (unknown, any_data) # post) cur = render_map_svg str_title (pre @ post) cur \<and>
      get_room_center unknown = (0, 0)) \<and>
   (direction \<notin> set [''north'', ''south'', ''east'', ''west'', ''up'', ''down''] \<longrightarrow>
      adjust_endpoints direction p = p)"
proof -
  have 2: "render_map_svg str_title (pre @ (room_id, room_data) # post) cur =
      render_map_svg str_title (pre @ (room_id, (''exits'', PDict []) # room_data) # post) cur"
    if "map_of room_data ''exits'' = None"
  proof -
    from that have "exits_of room_data = exits_of ((''exits'', PDict []) # room_data)"
      by (simp add: exits_of_def dict_get_def)
    then have "svg_parts str_title (pre @ (room_id, room_data) # post) cur =
        svg_parts str_title (pre @ (room_id, (''exits'', PDict []) # room_data) # post) cur"
      by (rule svg_parts_same_exits)
    then show ?thesis
      unfolding render_map_svg_def by simp
  qed
  have 3: "render_map_svg str_title (pre @ (unknown, any_data) # post) cur = render_map_svg str_title (pre @ post) cur \<and>
      get_room_center unknown = (0, 0)"
    if "\<not> in_positions unknown"
  proof -
    from that have "map_of ROOM_POSITIONS unknown = None"
      unfolding in_positions_def by blast
    then have "get_room_center unknown = (0, 0)"
      by (simp add: get_room_center_def)
    moreover from that have "svg_parts str_title (pre @ (unknown, any_data) # post) cur = svg_parts str_title (pre @ post) cur"
      by (rule svg_parts_skip_unknown)
    ultimately show ?thesis
      unfolding render_map_svg_def by simp
  qed
  have 4: "adjust_endpoints direction p = p"
    if "direction \<notin> set [''north'', ''south'', ''east'', ''west'', ''up'', ''down'']"
    using that by (cases p) (simp add: adjust_endpoints_def)
  from render_total [of rooms str_title cur] 2 3 4 show ?thesis by blast
qed

theorem render_succeeds_on_wellformed_exits_witness:
  "in_positions ''tavern'' \<and> exits_wf [] \<and>
   \<not> in_positions ''dungeon'' \<and> \<not> exits_wf [(''exits'', PNone)] \<and>
   in_positions ''street'' \<and>
   exits_wf [(''exits'', PDict [(''sideways'', PStr ''tavern''), (''north'', PInt 3)])] \<and>
   (\<exists>doc. render_map_svg sample_title [(''tavern'', []), (''dungeon'', [(''exits'', PNone)]),
        (''street'', [(''exits'', PDict [(''sideways'', PStr ''tavern''), (''north'', PInt 3)])])] ''tavern''
      = Inr doc \<and> prefix ''<svg '' doc \<and> suffix ''</svg>'' doc) \<and>
   map_of ([] :: room_data) ''exits'' = None \<and>
   render_map_svg sample_title ([] @ [(''tavern'', [])]) ''tavern'' =
     render_map_svg sample_title ([] @ [(''tavern'', [(''exits'', PDict [])])]) ''tavern'' \<and>
   render_map_svg sample_title ([] @ [(''dungeon'', [(''exits'', PNone)])]) ''tavern'' = render_map_svg sample_title ([] @ []) ''tavern'' \<and>
   get_room_center ''dungeon'' = (0, 0) \<and>
   ''sideways'' \<notin> set [''north'', ''south'', ''east'', ''west'', ''up'', ''down''] \<and>
   adjust_endpoints ''sideways'' (260, 260, 260, 360) = (260, 260, 260, 360)"
proof -
  let ?rooms = "[(''tavern'', []), (''dungeon'', [(''exits'', PNone)]),
        (''street'', [(''exits'', PDict [(''sideways'', PStr ''tavern''), (''north'', PInt 3)])])]"
  have e: "in_positions ''tavern''" "exits_wf []"
    "\<not> in_positions ''dungeon''" "\<not> exits_wf [(''exits'', PNone)]"
    "in_positions ''street''"
    "exits_wf [(''exits'', PDict [(''sideways'', PStr ''tavern''), (''north'', PInt 3)])]"
    by code_simp+
  then have h1: "\<forall>(room_id, room_data) \<in> set ?rooms. in_positions room_id \<longrightarrow> exits_wf room_data"
    by simp
  have h2: "map_of ([] :: room_data) ''exits'' = None" by simp
  have h3: "\<not> in_positions ''dungeon''"
    by (rule e(3))
  have h4: "''sideways'' \<notin> set [''north'', ''south'', ''east'', ''west'', ''up'', ''down'']"
    by simp
  note t = render_succeeds_on_wellformed_exits
         [where rooms = ?rooms and str_title = sample_title and cur = "''tavern''"
            and room_data = "[]" and pre = "[]" and room_id = "''tavern''" and post = "[]"
            and unknown = "''dungeon''" and any_data = "[(''exits'', PNone)]"
            and direction = "''sideways''" and p = "(260, 260, 260, 360)"]
  from t h1 have c1: "\<exists>doc. render_map_svg sample_title ?rooms ''tavern'' = Inr doc
      \<and> prefix ''<svg '' doc \<and> suffix ''</svg>'' doc"
    by (elim conjE) (erule mp)
  from t h2 have c2: "render_map_svg sample_title ([] @ [(''tavern'', [])]) ''tavern'' =
     render_map_svg sample_title ([] @ [(''tavern'', [(''exits'', PDict [])])]) ''tavern''"
    by (elim conjE) (erule mp)
  from t h3 have c3: "render_map_svg sample_title ([] @ [(''dungeon'', [(''exits'', PNone)])]) ''tavern''
      = render_map_svg sample_title ([] @ []) ''tavern'' \<and> get_room_center ''dungeon'' = (0, 0)"
    by (elim conjE) (erule mp)
  from t h4 have c4: "adjust_endpoints ''sideways'' (260, 260, 260, 360) = (260, 260, 260, 360)"
    by (elim conjE) (erule mp)
  from c3 have c3a: "render_map_svg sample_title ([] @ [(''dungeon'', [(''exits'', PNone)])]) ''tavern''
      = render_map_svg sample_title ([] @ []) ''tavern''" and c3b: "get_room_center ''dungeon'' = (0, 0)"
    by (rule conjunct1, rule conjunct2)
  show ?thesis
    by (intro conjI) (fact e c1 h2 c2 c3a c3b h4 c4)+
qed

text \<open>
  The claim as first stated fails: an \<^verbatim>\<open>exits\<close> entry that is no dictionary has no
  \<^verbatim>\<open>items\<close>, and an exit whose target is a list cannot be looked up in the position table.
\<close>

theorem malformed_exits_counterexample:
  "render_map_svg sample_title [(''tavern'', [(''exits'', PNone)])] ''tavern'' = Inl AttributeError \<and>
   render_map_svg sample_title [(''tavern'', [(''exits'', PDict [(''north'', PList [])])])] ''tavern'' = Inl TypeError"
  by code_simp

subsection \<open>The canvas\<close>

text \<open>
  Claim C4. The canvas is 520 wide and 520 high whatever mapping and current identifier
  are supplied: each dimension is the padding, one cell more than the largest grid
  coordinate of the position table, and the padding again. Every document the composer
  returns starts with the same \<^verbatim>\<open>svg\<close> tag and background rectangle of that size.
\<close>

theorem canvas_independent_of_rooms:
  \<open>canvas_size =
     Inr (PADDING + (Max ((\<lambda>(room_id, grid_x, grid_y, level). grid_x) ` set ROOM_POSITIONS) + 1) * CELL_SIZE + PADDING,
          PADDING + (Max ((\<lambda>(room_id, grid_x, grid_y, level). grid_y) ` set ROOM_POSITIONS) + 1) * CELL_SIZE + PADDING) \<and>
   canvas_size = Inr (520, 520) \<and>
   (render_map_svg str_title rooms cur = Inr doc \<longrightarrow>
      prefix ''<svg viewBox="0 0 520 520" xmlns="http://www.w3.org/2000/svg">\<newline>  <!-- Background -->\<newline>  <rect width="520" height="520" fill="#f5f5f5"/>\<newline>'' doc)\<close>
proof -
  have 1: "canvas_size =
     Inr (PADDING + (Max ((\<lambda>(room_id, grid_x, grid_y, level). grid_x) ` set ROOM_POSITIONS) + 1) * CELL_SIZE + PADDING,
          PADDING + (Max ((\<lambda>(room_id, grid_x, grid_y, level). grid_y) ` set ROOM_POSITIONS) + 1) * CELL_SIZE + PADDING)"
    unfolding canvas_size_value by (simp add: ROOM_POSITIONS_def PADDING_def CELL_SIZE_def)
  have 3: \<open>prefix ''<svg viewBox="0 0 520 520" xmlns="http://www.w3.org/2000/svg">\<newline>  <!-- Background -->\<newline>  <rect width="520" height="520" fill="#f5f5f5"/>\<newline>'' doc\<close>
    if a: "render_map_svg str_title rooms cur = Inr doc"
  proof -
    from a obtain parts where parts: "svg_parts str_title rooms cur = Inr parts" and doc: "doc = join ''\<newline>'' parts"
      unfolding render_map_svg_def by (auto split: sum.splits)
    from svg_parts_structure [OF parts] obtain rest where "parts = svg_header @ rest"
      by blast
    then show ?thesis unfolding doc by (simp add: svg_header_def)
  qed
  from 1 canvas_size_value 3 show ?thesis by blast
qed

theorem canvas_independent_of_rooms_witness:
  \<open>\<exists>doc1 doc2.
     render_map_svg sample_title [] ''nowhere'' = Inr doc1 \<and>
     render_map_svg sample_title example_rooms ''tavern'' = Inr doc2 \<and>
     prefix ''<svg viewBox="0 0 520 520" xmlns="http://www.w3.org/2000/svg">\<newline>  <!-- Background -->\<newline>  <rect width="520" height="520" fill="#f5f5f5"/>\<newline>'' doc1 \<and>
     prefix ''<svg viewBox="0 0 520 520" xmlns="http://www.w3.org/2000/svg">\<newline>  <!-- Background -->\<newline>  <rect width="520" height="520" fill="#f5f5f5"/>\<newline>'' doc2\<close>
proof -
  from render_total [of "[]" sample_title "''nowhere''"] obtain doc1 where
    d1: "render_map_svg sample_title [] ''nowhere'' = Inr doc1" by auto
  have d2: "render_map_svg sample_title example_rooms ''tavern'' = Inr (join ''\<newline>'' (example_parts sample_title))"
    unfolding render_map_svg_def example_svg_parts by simp
  from canvas_independent_of_rooms [of sample_title "[]" "''nowhere''" doc1]
       canvas_independent_of_rooms [of sample_title example_rooms "''tavern''" "join ''\<newline>'' (example_parts sample_title)"]
       d1 d2
  show ?thesis by blast
qed

subsection \<open>The order of the fragments\<close>

text \<open>
  Claim C8. The document is the fragments joined in their order, and in that order every
  connection line comes before every room box.
\<close>

theorem connections_before_boxes:
  "render_map_svg str_title rooms cur = Inr doc \<Longrightarrow>
     \<exists>parts. svg_parts str_title rooms cur = Inr parts \<and> doc = join ''\<newline>'' parts \<and>
       (\<forall>i j. i < length parts \<and> j < length parts \<and>
              is_line_fragment (parts ! i) \<and> is_box_fragment (parts ! j) \<longrightarrow> i < j)"
proof -
  assume "render_map_svg str_title rooms cur = Inr doc"
  then obtain parts where parts: "svg_parts str_title rooms cur = Inr parts" and doc: "doc = join ''\<newline>'' parts"
    unfolding render_map_svg_def by (auto split: sum.splits)
  from svg_parts_structure [OF parts] obtain calls boxes where s:
    "parts = svg_header @ map render_call calls @ ['''', ''  <!-- Rooms -->''] @ boxes
               @ ['''', ''  <!-- Legend -->'', legend str_title 520 cur, ''</svg>'']"
    "\<forall>s \<in> set boxes. is_room_fragment str_title rooms cur s"
    by blast
  let ?pre = "svg_header @ map render_call calls"
  let ?post = "['''', ''  <!-- Rooms -->''] @ boxes @ ['''', ''  <!-- Legend -->'', legend str_title 520 cur, ''</svg>'']"
  have split: "parts = ?pre @ ?post" using s(1) by simp
  have pre: "\<forall>s \<in> set ?pre. \<not> is_box_fragment s"
    using header_not_box render_call_not_box by auto
  have post: "\<forall>s \<in> set ?post. \<not> is_line_fragment s"
  proof
    fix x assume "x \<in> set ?post"
    then consider "x \<in> set boxes" | "x = legend str_title 520 cur"
      | "x \<in> {'''', ''  <!-- Rooms -->'', ''  <!-- Legend -->'', ''</svg>''}"
      by auto
    then show "\<not> is_line_fragment x"
    proof cases
      case 1
      with s(2) show ?thesis by (blast dest: room_fragment_not_line)
    next
      case 2
      then show ?thesis by simp
    next
      case 3
      then show ?thesis unfolding is_line_fragment_def by auto
    qed
  qed
  have "\<forall>i j. i < length parts \<and> j < length parts \<and>
              is_line_fragment (parts ! i) \<and> is_box_fragment (parts ! j) \<longrightarrow> i < j"
    using split_order [OF split pre post] by blast
  with parts doc show ?thesis by blast
qed

theorem connections_before_boxes_witness:
  "render_map_svg sample_title example_rooms ''tavern'' = Inr (join ''\<newline>'' (example_parts sample_title)) \<and>
   svg_parts sample_title example_rooms ''tavern'' = Inr (example_parts sample_title) \<and>
   5 < length (example_parts sample_title) \<and> 8 < length (example_parts sample_title) \<and>
   is_line_fragment ((example_parts sample_title) ! 5) \<and> is_box_fragment ((example_parts sample_title) ! 8) \<and>
   (5 :: nat) < 8"
proof -
  have d: "render_map_svg sample_title example_rooms ''tavern'' = Inr (join ''\<newline>'' (example_parts sample_title))"
    unfolding render_map_svg_def example_svg_parts by simp
  have n: "5 < length (example_parts sample_title)" "8 < length (example_parts sample_title)"
    "is_line_fragment ((example_parts sample_title) ! 5)" "is_box_fragment ((example_parts sample_title) ! 8)"
    by (simp_all add: example_parts_def svg_header_def)
  from connections_before_boxes [OF d] example_svg_parts
  have "\<forall>i j. i < length (example_parts sample_title) \<and> j < length (example_parts sample_title) \<and>
          is_line_fragment ((example_parts sample_title) ! i) \<and> is_box_fragment ((example_parts sample_title) ! j) \<longrightarrow> i < j"
    by auto
  with n have "(5 :: nat) < 8" by blast
  with d example_svg_parts n show ?thesis by blast
qed

subsection \<open>The legend\<close>

text \<open>
  Claim C9. The last fragment before the closing tag is the legend, and its text is the
  current identifier itself with underscores replaced by spaces and title-cased, whether
  or not the identifier is supplied or in the position table. An identifier with a
  character outside ASCII is title-cased by \<open>str_title\<close> itself, whatever it returns.
  When the identifier is not a supplied room of the position table no fragment is a box
  styled as current.
\<close>

theorem legend_from_identifier:
  \<open>svg_parts str_title rooms cur = Inr parts \<Longrightarrow>
     (\<exists>before. parts = before @
        [''  <text x="10" y="510" font-family="Arial, sans-serif" font-size="10" fill="#666">Current location: ''
           @ py_title str_title (replace_char CHR ''_'' CHR '' '' cur) @ ''</text>'',
         ''</svg>'']) \<and>
     (\<not> list_all is_ascii cur \<longrightarrow>
        py_title str_title (replace_char CHR ''_'' CHR '' '' cur) =
          str_title (replace_char CHR ''_'' CHR '' '' cur)) \<and>
     (cur \<notin> fst ` set rooms \<or> cur \<notin> fst ` set ROOM_POSITIONS \<longrightarrow>
        (\<forall>s \<in> set parts. \<not> is_current_box s))\<close>
proof -
  assume a: "svg_parts str_title rooms cur = Inr parts"
  from svg_parts_structure [OF a] obtain calls boxes where s:
    "parts = svg_header @ map render_call calls @ ['''', ''  <!-- Rooms -->''] @ boxes
               @ ['''', ''  <!-- Legend -->'', legend str_title 520 cur, ''</svg>'']"
    "\<forall>s \<in> set boxes. is_room_fragment str_title rooms cur s"
    by blast
  have l: \<open>legend str_title 520 cur =
      ''  <text x="10" y="510" font-family="Arial, sans-serif" font-size="10" fill="#666">Current location: ''
           @ py_title str_title (replace_char CHR ''_'' CHR '' '' cur) @ ''</text>''\<close>
    unfolding legend_def format_name_def by (simp add: show_510)
  have 1: \<open>\<exists>before. parts = before @
        [''  <text x="10" y="510" font-family="Arial, sans-serif" font-size="10" fill="#666">Current location: ''
           @ py_title str_title (replace_char CHR ''_'' CHR '' '' cur) @ ''</text>'',
         ''</svg>'']\<close>
    unfolding l [symmetric] s(1)
    by (intro exI [of _ "svg_header @ map render_call calls @ ['''', ''  <!-- Rooms -->''] @ boxes
               @ ['''', ''  <!-- Legend -->'']"]) simp
  have 2: "\<forall>s \<in> set parts. \<not> is_current_box s"
    if h: "cur \<notin> fst ` set rooms \<or> cur \<notin> fst ` set ROOM_POSITIONS"
  proof
    fix x assume "x \<in> set parts"
    then consider "x \<in> set svg_header" | "x \<in> set (map render_call calls)" | "x \<in> set boxes"
      | "x = legend str_title 520 cur" | "x \<in> {'''', ''  <!-- Rooms -->'', ''  <!-- Legend -->'', ''</svg>''}"
      unfolding s(1) by auto
    then show "\<not> is_current_box x"
    proof cases
      case 1
      then show ?thesis unfolding is_current_box_def by (simp add: header_not_box)
    next
      case 2
      then show ?thesis unfolding is_current_box_def using render_call_not_box by auto
    next
      case 3
      with s(2) have "is_room_fragment str_title rooms cur x" by blast
      moreover from h have "cur \<notin> fst ` set rooms \<or> \<not> in_positions cur"
        by (simp add: in_positions_iff)
      ultimately show ?thesis by (rule room_fragment_not_current)
    next
      case 4
      then show ?thesis unfolding is_current_box_def by simp
    next
      case 5
      then show ?thesis unfolding is_current_box_def is_box_fragment_def by auto
    qed
  qed
  have 3: "py_title str_title (replace_char CHR ''_'' CHR '' '' cur) =
          str_title (replace_char CHR ''_'' CHR '' '' cur)"
    if "\<not> list_all is_ascii cur"
    using that by (simp add: py_title_def is_ascii_replace_char)
  from 1 2 3 show ?thesis by blast
qed

theorem legend_from_identifier_witness:
  \<open>CHR 0xE9 # ''cole'' \<notin> fst ` set ROOM_POSITIONS \<and>
   \<not> list_all is_ascii (CHR 0xE9 # ''cole'') \<and>
   py_title sample_title (replace_char CHR ''_'' CHR '' '' (CHR 0xE9 # ''cole'')) = CHR 0xC9 # ''cole'' \<and>
   (\<exists>parts before.
      svg_parts sample_title example_rooms (CHR 0xE9 # ''cole'') = Inr parts \<and>
      parts = before @
        [''  <text x="10" y="510" font-family="Arial, sans-serif" font-size="10" fill="#666">Current location: ''
           @ CHR 0xC9 # ''cole</text>'',
         ''</svg>''] \<and>
      filter is_current_box parts = [])\<close>
proof -
  have h: "CHR 0xE9 # ''cole'' \<notin> fst ` set ROOM_POSITIONS"
    by (simp add: ROOM_POSITIONS_def)
  have n: "\<not> list_all is_ascii (CHR 0xE9 # ''cole'')"
    by (simp add: is_ascii_def)
  have wf: "\<forall>(room_id, room_data) \<in> set example_rooms. in_positions room_id \<longrightarrow> exits_wf room_data"
    by (simp add: example_rooms_def exits_wf_def)
  from svg_parts_total [OF wf, of sample_title "CHR 0xE9 # ''cole''"] obtain parts where
    parts: "svg_parts sample_title example_rooms (CHR 0xE9 # ''cole'') = Inr parts" by blast
  have t: "py_title sample_title (replace_char CHR ''_'' CHR '' '' (CHR 0xE9 # ''cole'')) = CHR 0xC9 # ''cole''"
    by code_simp
  from legend_from_identifier [OF parts] h obtain before where
    b: \<open>parts = before @
        [''  <text x="10" y="510" font-family="Arial, sans-serif" font-size="10" fill="#666">Current location: ''
           @ py_title sample_title (replace_char CHR ''_'' CHR '' '' (CHR 0xE9 # ''cole'')) @ ''</text>'',
         ''</svg>'']\<close>
    and c: "\<forall>s \<in> set parts. \<not> is_current_box s"
    by blast
  from b have b': \<open>parts = before @
        [''  <text x="10" y="510" font-family="Arial, sans-serif" font-size="10" fill="#666">Current location: ''
           @ CHR 0xC9 # ''cole</text>'',
         ''</svg>'']\<close>
    unfolding t by simp
  from c have "filter is_current_box parts = []"
    by (simp add: filter_empty_conv)
  with h n t parts b' show ?thesis by blast
qed

end
